theory Spec2Isabelle
  imports Main "HOL-Library.Sublist"
begin

section \<open>The Drive store\<close>

text \<open>
  The utilities of \<^verbatim>\<open>generate_project_folder.js\<close> work on Google Drive through
  \<^verbatim>\<open>DriveApp\<close>. The store is a list of nodes; the id of a node is its index, so ids
  are unique, stable, and a newly created node always receives an unused id. Every node
  carries its ordered list of children, so that one node may be the child of several
  folders. Node \<open>0\<close> is the root folder of the Drive, the place where
  \<^verbatim>\<open>DriveApp.createFolder\<close> puts a new folder.
\<close>

datatype kind = File | Folder

record node =
  name :: string
  kind :: kind
  content :: string
  kids :: "nat list"

type_synonym store = "node list"

datatype error =
    DriveException  \<comment> \<open>thrown by \<^verbatim>\<open>DriveApp.getFolderById\<close> for an id that is no folder\<close>
  | TypeError       \<comment> \<open>a method is called on \<^verbatim>\<open>undefined\<close>\<close>
  | Error string    \<comment> \<open>\<^verbatim>\<open>throw new Error(message)\<close>\<close>

definition rootFolder :: nat where
  "rootFolder = 0"

definition isFolder :: "store \<Rightarrow> nat \<Rightarrow> bool" where
  "isFolder s i = (i < length s \<and> kind (s ! i) = Folder)"

definition isFile :: "store \<Rightarrow> nat \<Rightarrow> bool" where
  "isFile s i = (i < length s \<and> kind (s ! i) = File)"

definition getKids :: "store \<Rightarrow> nat \<Rightarrow> nat list" where
  "getKids s i = (if isFolder s i then kids (s ! i) else [])"

text \<open>\<^verbatim>\<open>item.getName()\<close>; items are handles handed out by the store, hence valid ids.\<close>

definition getName :: "store \<Rightarrow> nat \<Rightarrow> string" where
  "getName s i = name (s ! i)"

text \<open>\<^verbatim>\<open>folder.getFolders()\<close> and \<^verbatim>\<open>folder.getFiles()\<close>: the iterator is the sequence of
  the children of that kind, in listing order.\<close>

definition getFolders :: "store \<Rightarrow> nat \<Rightarrow> nat list" where
  "getFolders s f = filter (isFolder s) (getKids s f)"

definition getFiles :: "store \<Rightarrow> nat \<Rightarrow> nat list" where
  "getFiles s f = filter (isFile s) (getKids s f)"

text \<open>\<^verbatim>\<open>item.getParents()\<close>: every folder that lists the item among its children.\<close>

definition getParents :: "store \<Rightarrow> nat \<Rightarrow> nat list" where
  "getParents s i = filter (\<lambda>p. i \<in> set (getKids s p)) [0..<length s]"

text \<open>\<^verbatim>\<open>DriveApp.getFoldersByName(name)\<close>: every folder of the Drive with exactly this name,
  wherever it is contained.\<close>

definition getFoldersByName :: "store \<Rightarrow> string \<Rightarrow> nat list" where
  "getFoldersByName s nm = filter (\<lambda>i. isFolder s i \<and> getName s i = nm) [0..<length s]"

text \<open>\<^verbatim>\<open>DriveApp.getFolderById(id)\<close> throws when no folder has the id.\<close>

definition getFolderById :: "store \<Rightarrow> nat \<Rightarrow> error + nat" where
  "getFolderById s i = (if isFolder s i then Inr i else Inl DriveException)"

text \<open>\<^verbatim>\<open>str.indexOf(sub)\<close>: the first position at which \<open>sub\<close> occurs in \<open>str\<close>,
  or \<open>-1\<close>.\<close>

definition indexOf :: "string \<Rightarrow> string \<Rightarrow> int" where
  "indexOf str sub =
     (case find (\<lambda>i. prefix sub (drop i str)) [0..<Suc (length str)] of
        None \<Rightarrow> - 1
      | Some i \<Rightarrow> int i)"

section \<open>Search by name\<close>

text \<open>
  Both searches keep two variables of the enclosing function, \<^verbatim>\<open>found\<close> and
  \<^verbatim>\<open>target\<close>, which the nested function \<^verbatim>\<open>search\<close> updates. The field \<open>visited\<close>
  records, in order, every item an iterator has handed out through \<^verbatim>\<open>next()\<close>.
  The recursion follows the containment edges of the store, so it carries fuel: the
  result \<open>None\<close> means that the fuel did not suffice.
\<close>

record srch =
  found :: bool
  target :: "nat option"
  visited :: "nat list"

definition srch0 :: srch where
  "srch0 = \<lparr>found = False, target = None, visited = []\<rparr>"

text \<open>The first \<^verbatim>\<open>while\<close> loop of \<^verbatim>\<open>search\<close> in \<^verbatim>\<open>findFileByName\<close>.\<close>

fun findFileByName_files :: "store \<Rightarrow> string \<Rightarrow> bool \<Rightarrow> nat list \<Rightarrow> srch \<Rightarrow> srch" where
  "findFileByName_files s fileName partialMatch [] st = st"
| "findFileByName_files s fileName partialMatch (file # files) st =
     (if found st then st
      else
        let st1 = st\<lparr>visited := visited st @ [file]\<rparr>
        in findFileByName_files s fileName partialMatch files
             (if getName s file = fileName
              then st1\<lparr>target := Some file, found := True\<rparr>
              else if partialMatch \<and> indexOf (getName s file) fileName \<noteq> - 1
              then st1\<lparr>target := Some file, found := True\<rparr>
              else st1))"

fun findFileByName_search :: "nat \<Rightarrow> store \<Rightarrow> string \<Rightarrow> bool \<Rightarrow> nat \<Rightarrow> srch \<Rightarrow> srch option"
  and findFileByName_folders ::
    "nat \<Rightarrow> store \<Rightarrow> string \<Rightarrow> bool \<Rightarrow> nat list \<Rightarrow> srch \<Rightarrow> srch option" where
  "findFileByName_search 0 s fileName partialMatch sourceFolder st = None"
| "findFileByName_search (Suc n) s fileName partialMatch sourceFolder st =
     (let folders = getFolders s sourceFolder;
          files = getFiles s sourceFolder
      in findFileByName_folders n s fileName partialMatch folders
           (findFileByName_files s fileName partialMatch files st))"
| "findFileByName_folders n s fileName partialMatch [] st = Some st"
| "findFileByName_folders n s fileName partialMatch (subFolder # folders) st =
     (if found st then Some st
      else
        case findFileByName_search n s fileName partialMatch subFolder
               (st\<lparr>visited := visited st @ [subFolder]\<rparr>) of
          None \<Rightarrow> None
        | Some st' \<Rightarrow> findFileByName_folders n s fileName partialMatch folders st')"

text \<open>The value of \<^verbatim>\<open>if (found) return target;\<close> where falling through yields
  \<^verbatim>\<open>undefined\<close>, which is \<open>None\<close>.\<close>

definition returned :: "srch \<Rightarrow> nat option" where
  "returned st = (if found st then target st else None)"

definition findFileByName_run ::
  "nat \<Rightarrow> store \<Rightarrow> nat \<Rightarrow> string \<Rightarrow> bool \<Rightarrow> (error + srch) option" where
  "findFileByName_run fuel s sourceFolderId fileName partialMatch =
     (case getFolderById s sourceFolderId of
        Inl e \<Rightarrow> Some (Inl e)
      | Inr sourceFolder \<Rightarrow>
          map_option Inr (findFileByName_search fuel s fileName partialMatch sourceFolder srch0))"

definition findFileByName ::
  "nat \<Rightarrow> store \<Rightarrow> nat \<Rightarrow> string \<Rightarrow> bool \<Rightarrow> (error + nat option) option" where
  "findFileByName fuel s sourceFolderId fileName partialMatch =
     map_option (map_sum id returned)
       (findFileByName_run fuel s sourceFolderId fileName partialMatch)"

text \<open>\<^verbatim>\<open>search\<close> in \<^verbatim>\<open>findFolderByName\<close>: one loop, which tests the name of the
  sub-folder and then calls \<^verbatim>\<open>search\<close> on it, whether it matched or not.\<close>

fun findFolderByName_search :: "nat \<Rightarrow> store \<Rightarrow> string \<Rightarrow> nat \<Rightarrow> srch \<Rightarrow> srch option"
  and findFolderByName_folders :: "nat \<Rightarrow> store \<Rightarrow> string \<Rightarrow> nat list \<Rightarrow> srch \<Rightarrow> srch option" where
  "findFolderByName_search 0 s folderName sourceFolder st = None"
| "findFolderByName_search (Suc n) s folderName sourceFolder st =
     findFolderByName_folders n s folderName (getFolders s sourceFolder) st"
| "findFolderByName_folders n s folderName [] st = Some st"
| "findFolderByName_folders n s folderName (subFolder # folders) st =
     (if found st then Some st
      else
        let st1 = st\<lparr>visited := visited st @ [subFolder]\<rparr>;
            st2 = (if getName s subFolder = folderName
                   then st1\<lparr>target := Some subFolder, found := True\<rparr>
                   else st1)
        in case findFolderByName_search n s folderName subFolder st2 of
             None \<Rightarrow> None
           | Some st3 \<Rightarrow> findFolderByName_folders n s folderName folders st3)"

definition findFolderByName_run ::
  "nat \<Rightarrow> store \<Rightarrow> nat \<Rightarrow> string \<Rightarrow> (error + srch) option" where
  "findFolderByName_run fuel s sourceFolderId folderName =
     (case getFolderById s sourceFolderId of
        Inl e \<Rightarrow> Some (Inl e)
      | Inr sourceFolder \<Rightarrow>
          map_option Inr (findFolderByName_search fuel s folderName sourceFolder srch0))"

definition findFolderByName ::
  "nat \<Rightarrow> store \<Rightarrow> nat \<Rightarrow> string \<Rightarrow> (error + nat option) option" where
  "findFolderByName fuel s sourceFolderId folderName =
     map_option (map_sum id returned) (findFolderByName_run fuel s sourceFolderId folderName)"

text \<open>\<^verbatim>\<open>getFileId\<close> and \<^verbatim>\<open>getFolderId\<close> call \<^verbatim>\<open>getId()\<close> on what the search
  returned; on \<^verbatim>\<open>undefined\<close> that call throws a \<^verbatim>\<open>TypeError\<close>. The id of a
  node is its handle.\<close>

definition getFileId :: "nat \<Rightarrow> store \<Rightarrow> nat \<Rightarrow> string \<Rightarrow> (error + nat) option" where
  "getFileId fuel s folderId fileName =
     (case findFileByName fuel s folderId fileName False of
        None \<Rightarrow> None
      | Some (Inl e) \<Rightarrow> Some (Inl e)
      | Some (Inr None) \<Rightarrow> Some (Inl TypeError)
      | Some (Inr (Some file)) \<Rightarrow> Some (Inr file))"

definition getFolderId :: "nat \<Rightarrow> store \<Rightarrow> nat \<Rightarrow> string \<Rightarrow> (error + nat) option" where
  "getFolderId fuel s folderId folderName =
     (case findFolderByName fuel s folderId folderName of
        None \<Rightarrow> None
      | Some (Inl e) \<Rightarrow> Some (Inl e)
      | Some (Inr None) \<Rightarrow> Some (Inl TypeError)
      | Some (Inr (Some folder)) \<Rightarrow> Some (Inr folder))"

text \<open>\<^verbatim>\<open>locateFileId\<close> of \<^verbatim>\<open>locate_file.js\<close>; \<open>stringify\<close> stands for
  \<^verbatim>\<open>JSON.stringify\<close> on an id.\<close>

definition locateFileId ::
  "nat \<Rightarrow> (nat \<Rightarrow> string) \<Rightarrow> store \<Rightarrow> nat \<Rightarrow> string \<Rightarrow> string \<Rightarrow> (error + string) option" where
  "locateFileId fuel stringify s folderId folderName fileName =
     (case getFolderId fuel s folderId folderName of
        None \<Rightarrow> None
      | Some (Inl e) \<Rightarrow> Some (Inl e)
      | Some (Inr subFolderId) \<Rightarrow>
          (case getFileId fuel s subFolderId fileName of
             None \<Rightarrow> None
           | Some (Inl e) \<Rightarrow> Some (Inl e)
           | Some (Inr fileId) \<Rightarrow> Some (Inr (stringify fileId))))"

section \<open>Changing the containment edges\<close>

definition setKids :: "store \<Rightarrow> nat \<Rightarrow> nat list \<Rightarrow> store" where
  "setKids s p ks = (if p < length s then s[p := (s ! p)\<lparr>kids := ks\<rparr>] else s)"

text \<open>\<^verbatim>\<open>folder.removeFolder(child)\<close> takes the child out of the folder;
  \<^verbatim>\<open>folder.addFolder(child)\<close> puts it in, at the end of the listing, unless the folder
  holds it already.\<close>

definition removeFolder :: "store \<Rightarrow> nat \<Rightarrow> nat \<Rightarrow> store" where
  "removeFolder s p c = setKids s p (removeAll c (getKids s p))"

definition addFolder :: "store \<Rightarrow> nat \<Rightarrow> nat \<Rightarrow> store" where
  "addFolder s p c =
     (if c \<in> set (getKids s p) then s else setKids s p (getKids s p @ [c]))"

text \<open>The loop over \<^verbatim>\<open>sourceFolder.getParents()\<close> that both move functions contain:
  the iterator is taken once, then every parent drops the folder.\<close>

definition removeFromParents :: "store \<Rightarrow> nat \<Rightarrow> store" where
  "removeFromParents s sourceFolder =
     fold (\<lambda>currentFolder st. removeFolder st currentFolder sourceFolder)
       (getParents s sourceFolder) s"

text \<open>A function that changes the store returns its outcome together with the store it
  leaves behind, since an exception does not undo what was done before it.\<close>

definition moveFolderToFolderById :: "store \<Rightarrow> nat \<Rightarrow> nat \<Rightarrow> (error + unit) \<times> store" where
  "moveFolderToFolderById s sourceFolderId targetFolderId =
     (case getFolderById s sourceFolderId of
        Inl e \<Rightarrow> (Inl e, s)
      | Inr sourceFolder \<Rightarrow>
          (case getFolderById s targetFolderId of
             Inl e \<Rightarrow> (Inl e, s)
           | Inr targetFolder \<Rightarrow>
               (Inr (), addFolder (removeFromParents s sourceFolder) targetFolder sourceFolder)))"

text \<open>The last five lines of \<^verbatim>\<open>moveFolderToFolderByName\<close>. The variables
  \<^verbatim>\<open>sourceFolder\<close> and \<^verbatim>\<open>targetFolder\<close> are \<^verbatim>\<open>undefined\<close> (\<open>None\<close>) when the
  lookup by name found nothing; \<^verbatim>\<open>sourceFolder.getParents()\<close> and
  \<^verbatim>\<open>targetFolder.addFolder(sourceFolder)\<close> then throw a \<^verbatim>\<open>TypeError\<close>.\<close>

definition moveFolderToFolderByName_move ::
  "store \<Rightarrow> nat option \<Rightarrow> nat option \<Rightarrow> (error + unit) \<times> store" where
  "moveFolderToFolderByName_move s sourceFolder targetFolder =
     (case sourceFolder of
        None \<Rightarrow> (Inl TypeError, s)
      | Some src \<Rightarrow>
          (let s1 = removeFromParents s src
           in case targetFolder of
                None \<Rightarrow> (Inl TypeError, s1)
              | Some tgt \<Rightarrow> (Inr (), addFolder s1 tgt src)))"

definition moveFolderToFolderByName ::
  "store \<Rightarrow> string \<Rightarrow> string \<Rightarrow> bool \<Rightarrow> (error + unit) \<times> store" where
  "moveFolderToFolderByName s sourceFolderName destinationFolderName isUnique =
     (let matchedFolders = getFoldersByName s sourceFolderName;
          sourceFolder = (case matchedFolders of [] \<Rightarrow> None | f # _ \<Rightarrow> Some f)
      in if matchedFolders \<noteq> [] \<and> isUnique \<and> tl matchedFolders \<noteq> []
         then (Inl (Error (''Source Folder Name'' @ sourceFolderName @ ''not unique'')), s)
         else
           (case getFoldersByName s destinationFolderName of
              [] \<Rightarrow> moveFolderToFolderByName_move s sourceFolder None
            | targetFolder # rest \<Rightarrow>
                (let targetFolderContents = getFolders s targetFolder
                 in if rest \<noteq> []
                    then (Inl (Error (''Destination Folder Name: '' @ destinationFolderName
                                        @ '' not unique'')), s)
                    else if \<exists>c \<in> set targetFolderContents. getName s c = sourceFolderName
                    then (Inl (Error (''Source Folder Name: '' @ sourceFolderName
                                        @ '' not unique in destination folder'')), s)
                    else moveFolderToFolderByName_move s sourceFolder (Some targetFolder))))"

section \<open>Creating nodes\<close>

text \<open>\<^verbatim>\<open>folder.createFolder(name)\<close> makes a new, empty folder inside \<open>folder\<close>;
  \<^verbatim>\<open>DriveApp.createFolder(name)\<close> does so inside the root folder of the Drive.
  \<^verbatim>\<open>file.makeCopy(name, destination)\<close> makes a new file with the content of \<open>file\<close>
  inside \<open>destination\<close>. \<^verbatim>\<open>item.moveTo(destination)\<close> takes the item out of every
  folder that holds it and puts it into \<open>destination\<close>.\<close>

definition createFolderIn :: "store \<Rightarrow> nat \<Rightarrow> string \<Rightarrow> nat \<times> store" where
  "createFolderIn s folder nm =
     (let new = length s
      in (new, addFolder (s @ [\<lparr>name = nm, kind = Folder, content = [], kids = []\<rparr>])
                 folder new))"

definition createFolder :: "store \<Rightarrow> string \<Rightarrow> nat \<times> store" where
  "createFolder s nm = createFolderIn s rootFolder nm"

definition makeCopy :: "store \<Rightarrow> nat \<Rightarrow> string \<Rightarrow> nat \<Rightarrow> store" where
  "makeCopy s file nm destination =
     (let new = length s
      in addFolder (s @ [\<lparr>name = nm, kind = File, content = content (s ! file), kids = []\<rparr>])
           destination new)"

definition moveTo :: "store \<Rightarrow> nat \<Rightarrow> nat \<Rightarrow> store" where
  "moveTo s item destination = addFolder (removeFromParents s item) destination item"

definition findOrCreateFolder ::
  "nat \<Rightarrow> store \<Rightarrow> nat \<Rightarrow> string \<Rightarrow> bool \<Rightarrow> ((error + nat) \<times> store) option" where
  "findOrCreateFolder fuel s parentFolderId folderName moveToParent =
     (case findFolderByName fuel s parentFolderId folderName of
        None \<Rightarrow> None
      | Some (Inl e) \<Rightarrow> Some (Inl e, s)
      | Some (Inr locatedFolder) \<Rightarrow>
          (let (folder, s1) =
                 (case locatedFolder of
                    Some f \<Rightarrow> (f, s)
                  | None \<Rightarrow> createFolder s folderName)
           in if moveToParent
              then (case getFolderById s1 parentFolderId of
                      Inl e \<Rightarrow> Some (Inl e, s1)
                    | Inr parentFolder \<Rightarrow> Some (Inr folder, moveTo s1 folder parentFolder))
              else Some (Inr folder, s1)))"

section \<open>Copying a folder\<close>

text \<open>The first loop of \<^verbatim>\<open>copyFolder\<close> copies the files, the second creates a folder
  for every sub-folder and recurses. The model takes an iterator to be the listing of the
  folder at the moment \<^verbatim>\<open>getFolders()\<close> or \<^verbatim>\<open>getFiles()\<close> is called. Whether an
  iterator of the Drive follows later changes of its listing makes a difference only where
  a listing changes while it is iterated; the copy changes the listings of the target and
  of the folders it creates, and no other. The recursion reads a store that the copy
  itself extends, so it carries fuel.\<close>

fun copyFolder_files :: "nat list \<Rightarrow> nat \<Rightarrow> store \<Rightarrow> store" where
  "copyFolder_files [] targetFolder s = s"
| "copyFolder_files (file # files) targetFolder s =
     copyFolder_files files targetFolder (makeCopy s file (getName s file) targetFolder)"

fun copyFolder :: "nat \<Rightarrow> store \<Rightarrow> nat \<Rightarrow> nat \<Rightarrow> store option"
  and copyFolder_folders :: "nat \<Rightarrow> store \<Rightarrow> nat list \<Rightarrow> nat \<Rightarrow> store option" where
  "copyFolder 0 s folderToCopy targetFolder = None"
| "copyFolder (Suc n) s folderToCopy targetFolder =
     (let folders = getFolders s folderToCopy;
          files = getFiles s folderToCopy
      in copyFolder_folders n (copyFolder_files files targetFolder s) folders targetFolder)"
| "copyFolder_folders n s [] targetFolder = Some s"
| "copyFolder_folders n s (subFolder # folders) targetFolder =
     (let folderName = getName s subFolder;
          (newFolder, s1) = createFolderIn s targetFolder folderName
      in case copyFolder n s1 subFolder newFolder of
           None \<Rightarrow> None
         | Some s2 \<Rightarrow> copyFolder_folders n s2 folders targetFolder)"

section \<open>Traversal order\<close>

text \<open>
  The searches are stated against the depth-first, pre-order sequence of the items below
  a folder. \<open>fits n s f\<close> says that every chain of sub-folders below \<open>f\<close> is shorter
  than \<open>n\<close>, which is when fuel \<open>n\<close> suffices. \<open>file_order\<close> is the order in which the
  file search meets items: the files of a folder, then each sub-folder followed by what
  is below it. \<open>folder_order\<close> is the same sequence without the files.
\<close>

fun fits :: "nat \<Rightarrow> store \<Rightarrow> nat \<Rightarrow> bool" where
  "fits 0 s f = False"
| "fits (Suc n) s f = (\<forall>d \<in> set (getFolders s f). fits n s d)"

fun file_order :: "nat \<Rightarrow> store \<Rightarrow> nat \<Rightarrow> nat list" where
  "file_order 0 s f = []"
| "file_order (Suc n) s f =
     getFiles s f @ concat (map (\<lambda>d. d # file_order n s d) (getFolders s f))"

fun folder_order :: "nat \<Rightarrow> store \<Rightarrow> nat \<Rightarrow> nat list" where
  "folder_order 0 s f = []"
| "folder_order (Suc n) s f = concat (map (\<lambda>d. d # folder_order n s d) (getFolders s f))"

definition fileMatches :: "store \<Rightarrow> string \<Rightarrow> bool \<Rightarrow> nat \<Rightarrow> bool" where
  "fileMatches s fileName partialMatch i =
     (isFile s i \<and>
      (getName s i = fileName \<or> partialMatch \<and> indexOf (getName s i) fileName \<noteq> - 1))"

definition folderMatches :: "store \<Rightarrow> string \<Rightarrow> nat \<Rightarrow> bool" where
  "folderMatches s folderName i = (isFolder s i \<and> getName s i = folderName)"

text \<open>A linear scan that stops at the first item satisfying \<open>p\<close>, with the same
  bookkeeping as the searches.\<close>

fun scan :: "(nat \<Rightarrow> bool) \<Rightarrow> nat list \<Rightarrow> srch \<Rightarrow> srch" where
  "scan p [] st = st"
| "scan p (x # xs) st =
     (if found st then st
      else scan p xs
             (if p x then st\<lparr>visited := visited st @ [x], target := Some x, found := True\<rparr>
              else st\<lparr>visited := visited st @ [x]\<rparr>))"

text \<open>The items of a sequence up to and including the first that satisfies \<open>p\<close>.\<close>

definition upto_first :: "('a \<Rightarrow> bool) \<Rightarrow> 'a list \<Rightarrow> 'a list" where
  "upto_first p xs = takeWhile (\<lambda>x. \<not> p x) xs @ take 1 (dropWhile (\<lambda>x. \<not> p x) xs)"

section \<open>Well-formed stores\<close>

text \<open>Every child listed by a node is a node of the store.\<close>

definition wf_store :: "store \<Rightarrow> bool" where
  "wf_store s = (\<forall>nd \<in> set s. \<forall>c \<in> set (kids nd). c < length s)"

section \<open>Copies\<close>

text \<open>
  What a copy has to reproduce is the content of the source folder as a forest: a file
  with its name and content, a folder with its name and the forest of what it holds, files
  before folders at every level, as the two loops of \<^verbatim>\<open>copyFolder\<close> meet them.
  \<open>copy_in lo hi s t i\<close> says that node \<open>i\<close> of the store \<open>s\<close> is the root of a copy
  of the tree \<open>t\<close>, with the same names, contents and order of children, made of nodes
  whose ids lie in \<open>lo..<hi\<close>. \<open>flat\<close> lists kind, name and content of the nodes of
  a tree in pre-order, and \<open>label\<close> gives the same three of a stored node.
  \<open>frame s s' tgt\<close> says that \<open>s'\<close> extends \<open>s\<close> and that the nodes of \<open>s\<close> are as
  they were, but for the list of children of \<open>tgt\<close>.
\<close>

datatype tree = Leaf string string | Branch string "tree list"

fun forest :: "nat \<Rightarrow> store \<Rightarrow> nat \<Rightarrow> tree list" where
  "forest 0 s f = []"
| "forest (Suc n) s f =
     map (\<lambda>i. Leaf (getName s i) (content (s ! i))) (getFiles s f)
     @ map (\<lambda>d. Branch (getName s d) (forest n s d)) (getFolders s f)"

fun copy_in :: "nat \<Rightarrow> nat \<Rightarrow> store \<Rightarrow> tree \<Rightarrow> nat \<Rightarrow> bool" where
  "copy_in lo hi s (Leaf nm c) i =
     (lo \<le> i \<and> i < hi \<and> isFile s i \<and> getName s i = nm \<and> content (s ! i) = c)"
| "copy_in lo hi s (Branch nm ts) i =
     (lo \<le> i \<and> i < hi \<and> isFolder s i \<and> getName s i = nm
      \<and> list_all2 (copy_in lo hi s) ts (getKids s i))"

definition label :: "node \<Rightarrow> kind \<times> string \<times> string" where
  "label nd = (kind nd, name nd, content nd)"

fun flat :: "tree \<Rightarrow> (kind \<times> string \<times> string) list" where
  "flat (Leaf nm c) = [(File, nm, c)]"
| "flat (Branch nm ts) = (Folder, nm, []) # concat (map flat ts)"

definition frame :: "store \<Rightarrow> store \<Rightarrow> nat \<Rightarrow> bool" where
  "frame s s' tgt =
     (length s \<le> length s' \<and>
      (\<forall>i < length s. name (s' ! i) = name (s ! i) \<and> kind (s' ! i) = kind (s ! i)
          \<and> content (s' ! i) = content (s ! i)
          \<and> (i \<noteq> tgt \<longrightarrow> kids (s' ! i) = kids (s ! i))))"

text \<open>\<open>copied s s' tgt ts news\<close>: the store \<open>s'\<close> is \<open>s\<close> with copies of the trees
  \<open>ts\<close> added. The new children \<open>news\<close> of \<open>tgt\<close> are their roots, all their nodes
  are new, and the nodes were created in the pre-order of \<open>ts\<close>.\<close>

definition copied :: "store \<Rightarrow> store \<Rightarrow> nat \<Rightarrow> tree list \<Rightarrow> nat list \<Rightarrow> bool" where
  "copied s s' tgt ts news =
     (wf_store s' \<and> frame s s' tgt \<and> getKids s' tgt = getKids s tgt @ news
      \<and> list_all2 (copy_in (length s) (length s') s') ts news
      \<and> map label (drop (length s) s') = concat (map flat ts))"

section \<open>Example stores\<close>

text \<open>The root holds the folders \<open>A\<close> (id 1) and \<open>N\<close> (id 2), and the file \<open>n.txt\<close>
  (id 4); \<open>A\<close> holds another folder \<open>N\<close> (id 3), which holds the file \<open>m.txt\<close>
  (id 5).\<close>

definition ex_nested :: store where
  "ex_nested =
     [\<lparr>name = ''root'', kind = Folder, content = '''', kids = [1, 2, 4]\<rparr>,
      \<lparr>name = ''A'', kind = Folder, content = '''', kids = [3]\<rparr>,
      \<lparr>name = ''N'', kind = Folder, content = '''', kids = []\<rparr>,
      \<lparr>name = ''N'', kind = Folder, content = '''', kids = [5]\<rparr>,
      \<lparr>name = ''n.txt'', kind = File, content = ''x'', kids = []\<rparr>,
      \<lparr>name = ''m.txt'', kind = File, content = ''y'', kids = []\<rparr>]"

text \<open>The folder \<open>Reports\<close> (id 4) is held by both \<open>P1\<close> and \<open>P2\<close>.\<close>

definition ex_parents :: store where
  "ex_parents =
     [\<lparr>name = ''root'', kind = Folder, content = '''', kids = [1, 2, 3]\<rparr>,
      \<lparr>name = ''P1'', kind = Folder, content = '''', kids = [4]\<rparr>,
      \<lparr>name = ''P2'', kind = Folder, content = '''', kids = [4, 5]\<rparr>,
      \<lparr>name = ''Archive'', kind = Folder, content = '''', kids = []\<rparr>,
      \<lparr>name = ''Reports'', kind = Folder, content = '''', kids = []\<rparr>,
      \<lparr>name = ''notes'', kind = File, content = ''abc'', kids = []\<rparr>]"

text \<open>Two folders are named \<open>S\<close>, two are named \<open>D\<close>, one is named \<open>T\<close>.\<close>

definition ex_names :: store where
  "ex_names =
     [\<lparr>name = ''root'', kind = Folder, content = '''', kids = [1, 2, 3, 4, 5]\<rparr>,
      \<lparr>name = ''S'', kind = Folder, content = '''', kids = []\<rparr>,
      \<lparr>name = ''S'', kind = Folder, content = '''', kids = []\<rparr>,
      \<lparr>name = ''D'', kind = Folder, content = '''', kids = []\<rparr>,
      \<lparr>name = ''D'', kind = Folder, content = '''', kids = []\<rparr>,
      \<lparr>name = ''T'', kind = Folder, content = '''', kids = []\<rparr>]"

text \<open>The empty Drive: the root folder and nothing else.\<close>

definition ex_empty :: store where
  "ex_empty = [\<lparr>name = ''root'', kind = Folder, content = '''', kids = []\<rparr>]"

text \<open>The folder \<open>B\<close> (id 2) lies inside the folder \<open>A\<close> (id 1).\<close>

definition ex_inside :: store where
  "ex_inside =
     [\<lparr>name = ''root'', kind = Folder, content = '''', kids = [1]\<rparr>,
      \<lparr>name = ''A'', kind = Folder, content = '''', kids = [2]\<rparr>,
      \<lparr>name = ''B'', kind = Folder, content = '''', kids = []\<rparr>]"

section \<open>Properties of the searches\<close>

lemma scan_found: "found st \<Longrightarrow> scan p xs st = st"
  by (cases xs) auto

lemma scan_append: "scan p (xs @ ys) st = scan p ys (scan p xs st)"
  by (induction xs arbitrary: st) (auto simp: scan_found)

lemma isFile_not_isFolder: "isFolder s i \<Longrightarrow> \<not> isFile s i"
  by (simp add: isFolder_def isFile_def)

lemma files_loop_scan:
  "\<forall>f \<in> set fs. isFile s f \<Longrightarrow>
   findFileByName_files s nm pm fs st = scan (fileMatches s nm pm) fs st"
  by (induction fs arbitrary: st) (auto simp: fileMatches_def Let_def)

lemma file_search_scan:
  "fits n s f \<longrightarrow>
     findFileByName_search n s nm pm f st = Some (scan (fileMatches s nm pm) (file_order n s f) st)"
  "(\<forall>d \<in> set ds. isFolder s d \<and> fits n s d) \<longrightarrow>
     findFileByName_folders n s nm pm ds st =
       Some (scan (fileMatches s nm pm) (concat (map (\<lambda>d. d # file_order n s d) ds)) st)"
proof (induction n s nm pm f st and n s nm pm ds st
    rule: findFileByName_search_findFileByName_folders.induct)
  case (1 s fileName partialMatch sourceFolder st)
  then show ?case by simp
next
  case (2 n s fileName partialMatch sourceFolder st)
  have "\<forall>f \<in> set (getFiles s sourceFolder). isFile s f"
    by (simp add: getFiles_def)
  moreover have "\<forall>d \<in> set (getFolders s sourceFolder). isFolder s d"
    by (simp add: getFolders_def)
  ultimately show ?case using 2
    by (simp add: files_loop_scan scan_append)
next
  case (3 n s fileName partialMatch st)
  then show ?case by simp
next
  case (4 n s fileName partialMatch subFolder folders st)
  show ?case
  proof (cases "found st")
    case True
    then show ?thesis by (simp add: scan_found)
  next
    case False
    then show ?thesis using 4
      by (auto simp: scan_append fileMatches_def isFile_not_isFolder)
  qed
qed

lemma folder_search_scan:
  "fits n s f \<longrightarrow>
     findFolderByName_search n s nm f st =
       Some (scan (folderMatches s nm) (folder_order n s f) st)"
  "(\<forall>d \<in> set ds. isFolder s d \<and> fits n s d) \<longrightarrow>
     findFolderByName_folders n s nm ds st =
       Some (scan (folderMatches s nm) (concat (map (\<lambda>d. d # folder_order n s d) ds)) st)"
proof (induction n s nm f st and n s nm ds st
    rule: findFolderByName_search_findFolderByName_folders.induct)
  case (1 s folderName sourceFolder st)
  then show ?case by simp
next
  case (2 n s folderName sourceFolder st)
  have "\<forall>d \<in> set (getFolders s sourceFolder). isFolder s d"
    by (simp add: getFolders_def)
  then show ?case using 2 by simp
next
  case (3 n s folderName st)
  then show ?case by simp
next
  case (4 n s folderName subFolder folders st)
  show ?case
  proof (cases "found st")
    case True
    then show ?thesis by (simp add: scan_found)
  next
    case False
    then show ?thesis using 4
      by (auto simp: scan_append folderMatches_def Let_def scan_found)
  qed
qed

lemma returned_scan:
  "\<not> found st \<Longrightarrow> returned (scan p xs st) = find p xs"
proof (induction xs arbitrary: st)
  case Nil
  then show ?case by (simp add: returned_def)
next
  case (Cons x xs)
  show ?case
  proof (cases "p x")
    case True
    then show ?thesis using Cons.prems by (simp add: scan_found returned_def)
  next
    case False
    have "\<not> found (st\<lparr>visited := visited st @ [x]\<rparr>)" using Cons.prems by simp
    from Cons.IH [OF this] show ?thesis using False Cons.prems by simp
  qed
qed

lemma visited_scan:
  "\<not> found st \<Longrightarrow> visited (scan p xs st) = visited st @ upto_first p xs"
  by (induction xs arbitrary: st) (auto simp: upto_first_def scan_found)

lemma findFileByName_run_eq:
  "isFolder s F \<Longrightarrow> fits n s F \<Longrightarrow>
   findFileByName_run n s F nm pm =
     Some (Inr (scan (fileMatches s nm pm) (file_order n s F) srch0))"
  by (simp add: findFileByName_run_def getFolderById_def file_search_scan)

lemma findFolderByName_run_eq:
  "isFolder s F \<Longrightarrow> fits n s F \<Longrightarrow>
   findFolderByName_run n s F nm =
     Some (Inr (scan (folderMatches s nm) (folder_order n s F) srch0))"
  by (simp add: findFolderByName_run_def getFolderById_def folder_search_scan)

lemma findFileByName_eq:
  "isFolder s F \<Longrightarrow> fits n s F \<Longrightarrow>
   findFileByName n s F nm pm = Some (Inr (find (fileMatches s nm pm) (file_order n s F)))"
  by (simp add: findFileByName_def findFileByName_run_eq returned_scan srch0_def)

lemma findFolderByName_eq:
  "isFolder s F \<Longrightarrow> fits n s F \<Longrightarrow>
   findFolderByName n s F nm = Some (Inr (find (folderMatches s nm) (folder_order n s F)))"
  by (simp add: findFolderByName_def findFolderByName_run_eq returned_scan srch0_def)

lemma fits_Suc: "fits n s f \<Longrightarrow> fits (Suc n) s f"
  by (induction n arbitrary: f) auto

lemma fits_folder_order: "fits n s f \<Longrightarrow> d \<in> set (folder_order n s f) \<Longrightarrow> fits n s d"
proof (induction n arbitrary: f)
  case 0
  then show ?case by simp
next
  case (Suc n)
  from Suc.prems(2) obtain c where c: "c \<in> set (getFolders s f)"
    and d: "d = c \<or> d \<in> set (folder_order n s c)" by auto
  from Suc.prems(1) c have fc: "fits n s c" by simp
  from d show ?case
  proof
    assume "d = c"
    with fc show ?thesis by (simp only: fits_Suc)
  next
    assume "d \<in> set (folder_order n s c)"
    from Suc.IH [OF fc this] show ?thesis by (rule fits_Suc)
  qed
qed

lemma find_append_case:
  "find P (xs @ ys) = (case find P xs of None \<Rightarrow> find P ys | Some x \<Rightarrow> Some x)"
  by (induction xs) auto

lemmas store_eval =
  isFolder_def isFile_def getKids_def getName_def getFolders_def getFiles_def
  getFolderById_def getParents_def getFoldersByName_def

lemmas search_eval =
  findFileByName_def findFileByName_run_def findFolderByName_def findFolderByName_run_def
  srch0_def returned_def indexOf_def fileMatches_def folderMatches_def upto_first_def
  getFileId_def getFolderId_def locateFileId_def

text \<open>
  Claim C6. Let \<open>F\<close> be a folder and let the fuel suffice. \<^verbatim>\<open>findFileByName\<close> returns the
  first file in \<open>file_order\<close> below \<open>F\<close> whose name matches, and \<^verbatim>\<open>undefined\<close>
  exactly when no file below \<open>F\<close> matches; \<^verbatim>\<open>findFolderByName\<close> does the same with
  the folders of \<open>folder_order\<close>. The items that the iterators handed out are the
  traversal order up to and including the match, so that nothing is visited after it.
  Both functions read the store and return a node only: there is no store to change.
\<close>

theorem findByName_first_match:
  assumes "isFolder s F" and "fits n s F"
  shows "findFileByName n s F nm pm =
           Some (Inr (find (fileMatches s nm pm) (file_order n s F)))
       \<and> (findFileByName n s F nm pm = Some (Inr None) \<longleftrightarrow>
            (\<forall>i \<in> set (file_order n s F). \<not> fileMatches s nm pm i))
       \<and> (\<exists>st. findFileByName_run n s F nm pm = Some (Inr st)
             \<and> visited st = upto_first (fileMatches s nm pm) (file_order n s F))
       \<and> findFolderByName n s F nm =
           Some (Inr (find (folderMatches s nm) (folder_order n s F)))
       \<and> (findFolderByName n s F nm = Some (Inr None) \<longleftrightarrow>
            (\<forall>i \<in> set (folder_order n s F). \<not> folderMatches s nm i))
       \<and> (\<exists>st. findFolderByName_run n s F nm = Some (Inr st)
             \<and> visited st = upto_first (folderMatches s nm) (folder_order n s F))"
  using assms
  by (simp add: findFileByName_eq findFolderByName_eq findFileByName_run_eq
      findFolderByName_run_eq visited_scan srch0_def find_None_iff) blast

theorem findByName_first_match_witness:
  "isFolder ex_nested 0 \<and> fits 3 ex_nested 0
   \<and> file_order 3 ex_nested 0 = [4, 1, 3, 5, 2]
   \<and> findFileByName 3 ex_nested 0 ''m'' True = Some (Inr (Some 5))
   \<and> (\<exists>st. findFileByName_run 3 ex_nested 0 ''m'' True = Some (Inr st)
         \<and> visited st = [4, 1, 3, 5])
   \<and> folder_order 3 ex_nested 0 = [1, 3, 2]
   \<and> findFolderByName 3 ex_nested 0 ''N'' = Some (Inr (Some 3))
   \<and> (\<exists>st. findFolderByName_run 3 ex_nested 0 ''N'' = Some (Inr st)
         \<and> visited st = [1, 3])"
proof -
  have h1: "isFolder ex_nested 0"
    by (simp add: ex_nested_def store_eval)
  have h2: "fits 3 ex_nested 0"
    by (simp add: eval_nat_numeral ex_nested_def store_eval)
  have o1: "file_order 3 ex_nested 0 = [4, 1, 3, 5, 2]"
    by (simp add: eval_nat_numeral ex_nested_def store_eval)
  have o2: "folder_order 3 ex_nested 0 = [1, 3, 2]"
    by (simp add: eval_nat_numeral ex_nested_def store_eval)
  have m1: "find (fileMatches ex_nested ''m'' True) [4, 1, 3, 5, 2] = Some 5"
    "upto_first (fileMatches ex_nested ''m'' True) [4, 1, 3, 5, 2] = [4, 1, 3, 5]"
    by (simp_all add: ex_nested_def store_eval search_eval)
  have m2: "find (folderMatches ex_nested ''N'') [1, 3, 2] = Some 3"
    "upto_first (folderMatches ex_nested ''N'') [1, 3, 2] = [1, 3]"
    by (simp_all add: ex_nested_def store_eval search_eval)
  note a = findByName_first_match [OF h1 h2, of "''m''" True, unfolded o1 o2 m1]
  note b = findByName_first_match [OF h1 h2, of "''N''" True, unfolded o1 o2 m2]
  show ?thesis using a b h1 h2 o1 o2 by blast
qed

text \<open>
  Claim C4, as stated, fails: in \<open>ex_nested\<close> the root holds the folders \<open>A\<close> and
  \<open>N\<close> in this order and \<open>A\<close> holds a folder \<open>N\<close> of its own; the search for \<open>N\<close>
  from the root returns the folder inside \<open>A\<close>, not the direct child.
\<close>

theorem findFolderByName_direct_child_counterexample:
  "fits 3 ex_nested 0
   \<and> 2 \<in> set (getFolders ex_nested 0) \<and> getName ex_nested 2 = ''N''
   \<and> 1 \<in> set (getFolders ex_nested 0) \<and> 3 \<in> set (getFolders ex_nested 1)
   \<and> 3 \<notin> set (getFolders ex_nested 0)
   \<and> findFolderByName 3 ex_nested 0 ''N'' = Some (Inr (Some 3))"
  by (simp add: eval_nat_numeral ex_nested_def store_eval search_eval)

text \<open>
  Claim C4, amended. The loop tests a child right before the recursion descends into that
  child, children taken in listing order. A direct child \<open>c\<close> that bears the name is
  returned when none of the children listed before it, and no folder below one of them,
  bears the name; otherwise the first of those in pre-order is returned.
\<close>

theorem findFolderByName_direct_child:
  assumes "isFolder s F" and "fits (Suc n) s F"
    and "getFolders s F = earlier @ c # later" and "getName s c = nm"
  shows "findFolderByName (Suc n) s F nm =
           Some (Inr (case find (folderMatches s nm)
                             (concat (map (\<lambda>d. d # folder_order n s d) earlier)) of
                        None \<Rightarrow> Some c
                      | Some m \<Rightarrow> Some m))"
proof -
  have "c \<in> set (getFolders s F)" using assms(3) by simp
  then have "isFolder s c" by (simp add: getFolders_def)
  then have "folderMatches s nm c" using assms(4) by (simp add: folderMatches_def)
  then show ?thesis
    using assms(1,2,3)
    by (simp add: findFolderByName_eq find_append_case del: fits.simps split: option.splits)
qed

theorem findFolderByName_direct_child_witness:
  "isFolder ex_nested 0 \<and> fits (Suc 2) ex_nested 0
   \<and> getFolders ex_nested 0 = [1] @ 2 # [] \<and> getName ex_nested 2 = ''N''
   \<and> findFolderByName (Suc 2) ex_nested 0 ''N'' = Some (Inr (Some 3))"
proof -
  have h1: "isFolder ex_nested 0"
    by (simp add: ex_nested_def store_eval)
  have h2: "fits (Suc 2) ex_nested 0"
    by (simp add: eval_nat_numeral ex_nested_def store_eval)
  have h3: "getFolders ex_nested 0 = [1] @ 2 # []"
    by (simp add: ex_nested_def store_eval)
  have h4: "getName ex_nested 2 = ''N''"
    by (simp add: ex_nested_def store_eval)
  have e: "find (folderMatches ex_nested ''N'')
             (concat (map (\<lambda>d. d # folder_order 2 ex_nested d) [1])) = Some 3"
    by (simp add: eval_nat_numeral ex_nested_def store_eval search_eval)
  from findFolderByName_direct_child [OF h1 h2 h3 h4]
  show ?thesis using h1 h2 h3 h4 by (simp only: e option.case)
qed

text \<open>
  Claim C9. Let \<open>F\<close> be a folder and let the fuel suffice. When no file below \<open>F\<close> has
  the name, \<^verbatim>\<open>getFileId\<close> ends in a \<^verbatim>\<open>TypeError\<close>; when no folder below \<open>F\<close> has the
  name, so do \<^verbatim>\<open>getFolderId\<close> and \<^verbatim>\<open>locateFileId\<close>; and when the folder is found but
  holds no file of the name below it, \<^verbatim>\<open>locateFileId\<close> ends in a \<^verbatim>\<open>TypeError\<close> too.
\<close>

theorem absent_name_raises_TypeError:
  assumes "isFolder s F" and "fits n s F"
  shows "((\<forall>i \<in> set (file_order n s F). \<not> fileMatches s fileName False i) \<longrightarrow>
            getFileId n s F fileName = Some (Inl TypeError))
       \<and> ((\<forall>i \<in> set (folder_order n s F). \<not> folderMatches s folderName i) \<longrightarrow>
            getFolderId n s F folderName = Some (Inl TypeError)
            \<and> locateFileId n stringify s F folderName fileName = Some (Inl TypeError))
       \<and> (\<forall>d. getFolderId n s F folderName = Some (Inr d) \<longrightarrow>
            (\<forall>i \<in> set (file_order n s d). \<not> fileMatches s fileName False i) \<longrightarrow>
            locateFileId n stringify s F folderName fileName = Some (Inl TypeError))"
proof (intro conjI impI allI)
  assume "\<forall>i \<in> set (file_order n s F). \<not> fileMatches s fileName False i"
  then have "find (fileMatches s fileName False) (file_order n s F) = None"
    by (simp add: find_None_iff)
  then show "getFileId n s F fileName = Some (Inl TypeError)"
    using assms by (simp add: getFileId_def findFileByName_eq)
next
  assume "\<forall>i \<in> set (folder_order n s F). \<not> folderMatches s folderName i"
  then have "find (folderMatches s folderName) (folder_order n s F) = None"
    by (simp add: find_None_iff)
  then show g: "getFolderId n s F folderName = Some (Inl TypeError)"
    using assms by (simp add: getFolderId_def findFolderByName_eq)
  then show "locateFileId n stringify s F folderName fileName = Some (Inl TypeError)"
    by (simp add: locateFileId_def)
next
  fix d
  assume g: "getFolderId n s F folderName = Some (Inr d)"
    and a: "\<forall>i \<in> set (file_order n s d). \<not> fileMatches s fileName False i"
  from g assms have "find (folderMatches s folderName) (folder_order n s F) = Some d"
    by (simp add: getFolderId_def findFolderByName_eq split: option.splits)
  then have "folderMatches s folderName d" and "d \<in> set (folder_order n s F)"
    by (auto simp: find_Some_iff)
  then have fd: "isFolder s d" and "fits n s d"
    using assms(2) by (auto simp: folderMatches_def intro: fits_folder_order)
  moreover from a have "find (fileMatches s fileName False) (file_order n s d) = None"
    by (simp add: find_None_iff)
  ultimately have "getFileId n s d fileName = Some (Inl TypeError)"
    by (simp add: getFileId_def findFileByName_eq)
  with g show "locateFileId n stringify s F folderName fileName = Some (Inl TypeError)"
    by (simp add: locateFileId_def)
qed

theorem absent_name_raises_TypeError_witness:
  "isFolder ex_nested 0 \<and> fits 3 ex_nested 0
   \<and> find (fileMatches ex_nested ''zz'' False) (file_order 3 ex_nested 0) = None
   \<and> getFileId 3 ex_nested 0 ''zz'' = Some (Inl TypeError)
   \<and> find (folderMatches ex_nested ''Q'') (folder_order 3 ex_nested 0) = None
   \<and> getFolderId 3 ex_nested 0 ''Q'' = Some (Inl TypeError)
   \<and> locateFileId 3 (\<lambda>i. ''id'') ex_nested 0 ''Q'' ''zz'' = Some (Inl TypeError)
   \<and> getFolderId 3 ex_nested 0 ''A'' = Some (Inr 1)
   \<and> find (fileMatches ex_nested ''n.txt'' False) (file_order 3 ex_nested 1) = None
   \<and> locateFileId 3 (\<lambda>i. ''id'') ex_nested 0 ''A'' ''n.txt'' = Some (Inl TypeError)"
proof -
  have h1: "isFolder ex_nested 0"
    by (simp add: ex_nested_def store_eval)
  have h2: "fits 3 ex_nested 0"
    by (simp add: eval_nat_numeral ex_nested_def store_eval)
  have a1: "find (fileMatches ex_nested ''zz'' False) (file_order 3 ex_nested 0) = None"
    by (simp add: eval_nat_numeral ex_nested_def store_eval search_eval)
  have a2: "find (folderMatches ex_nested ''Q'') (folder_order 3 ex_nested 0) = None"
    by (simp add: eval_nat_numeral ex_nested_def store_eval search_eval)
  have a3: "getFolderId 3 ex_nested 0 ''A'' = Some (Inr 1)"
    by (simp add: eval_nat_numeral ex_nested_def store_eval search_eval)
  have a4: "find (fileMatches ex_nested ''n.txt'' False) (file_order 3 ex_nested 1) = None"
    by (simp add: eval_nat_numeral ex_nested_def store_eval search_eval)
  note t1 = absent_name_raises_TypeError [OF h1 h2, of "''zz''" "''Q''" "\<lambda>i. ''id''"]
  note t2 = absent_name_raises_TypeError [OF h1 h2, of "''n.txt''" "''A''" "\<lambda>i. ''id''"]
  from t1 a1 have c1: "getFileId 3 ex_nested 0 ''zz'' = Some (Inl TypeError)"
    by (simp only: find_None_iff) blast
  from t1 a2 have c2: "getFolderId 3 ex_nested 0 ''Q'' = Some (Inl TypeError)"
    and c3: "locateFileId 3 (\<lambda>i. ''id'') ex_nested 0 ''Q'' ''zz'' = Some (Inl TypeError)"
    by (simp only: find_None_iff, blast)+
  from t2 a3 a4
  have c4: "locateFileId 3 (\<lambda>i. ''id'') ex_nested 0 ''A'' ''n.txt'' = Some (Inl TypeError)"
    by (simp only: find_None_iff) blast
  show ?thesis using h1 h2 a1 a2 a3 a4 c1 c2 c3 c4 by blast
qed

section \<open>Properties of the moves\<close>

lemma length_setKids [simp]: "length (setKids s p ks) = length s"
  by (simp add: setKids_def)

lemma isFolder_setKids [simp]: "isFolder (setKids s p ks) i = isFolder s i"
  by (auto simp: setKids_def isFolder_def nth_list_update)

lemma isFile_setKids [simp]: "isFile (setKids s p ks) i = isFile s i"
  by (auto simp: setKids_def isFile_def nth_list_update)

lemma getName_setKids [simp]: "getName (setKids s p ks) i = getName s i"
  by (cases "i = p") (auto simp: setKids_def getName_def)

lemma getKids_setKids:
  "getKids (setKids s p ks) i = (if i = p \<and> isFolder s p then ks else getKids s i)"
  by (auto simp: getKids_def) (auto simp: setKids_def isFolder_def nth_list_update)

lemma length_removeFolder [simp]: "length (removeFolder s p c) = length s"
  by (simp add: removeFolder_def)

lemma isFolder_removeFolder [simp]: "isFolder (removeFolder s p c) i = isFolder s i"
  by (simp add: removeFolder_def)

lemma getName_removeFolder [simp]: "getName (removeFolder s p c) i = getName s i"
  by (simp add: removeFolder_def)

lemma getKids_removeFolder:
  "getKids (removeFolder s p c) i = (if i = p then removeAll c (getKids s i) else getKids s i)"
  by (auto simp: removeFolder_def getKids_setKids) (simp add: getKids_def)

lemma fold_removeFolder:
  "length (fold (\<lambda>cur st. removeFolder st cur c) ps s) = length s
   \<and> (\<forall>i. isFolder (fold (\<lambda>cur st. removeFolder st cur c) ps s) i = isFolder s i)
   \<and> (\<forall>i. getName (fold (\<lambda>cur st. removeFolder st cur c) ps s) i = getName s i)
   \<and> (\<forall>i. getKids (fold (\<lambda>cur st. removeFolder st cur c) ps s) i =
          (if i \<in> set ps then removeAll c (getKids s i) else getKids s i))"
  by (induction ps arbitrary: s) (auto simp: getKids_removeFolder)

lemma getKids_in_range: "c \<in> set (getKids s p) \<Longrightarrow> p < length s"
  by (auto simp: getKids_def isFolder_def split: if_splits)

lemma length_removeFromParents [simp]: "length (removeFromParents s c) = length s"
  by (simp add: removeFromParents_def fold_removeFolder)

lemma isFolder_removeFromParents [simp]: "isFolder (removeFromParents s c) i = isFolder s i"
  by (simp add: removeFromParents_def fold_removeFolder)

lemma getName_removeFromParents [simp]: "getName (removeFromParents s c) i = getName s i"
  by (simp add: removeFromParents_def fold_removeFolder)

lemma getKids_removeFromParents:
  "getKids (removeFromParents s c) i = removeAll c (getKids s i)"
proof (cases "c \<in> set (getKids s i)")
  case True
  then have "i \<in> set (getParents s c)"
    by (auto simp: getParents_def dest: getKids_in_range)
  then show ?thesis by (simp add: removeFromParents_def fold_removeFolder)
next
  case False
  then have "i \<notin> set (getParents s c)" by (simp add: getParents_def)
  then show ?thesis using False by (simp add: removeFromParents_def fold_removeFolder)
qed

lemma length_addFolder [simp]: "length (addFolder s p c) = length s"
  by (simp add: addFolder_def)

lemma isFolder_addFolder [simp]: "isFolder (addFolder s p c) i = isFolder s i"
  by (simp add: addFolder_def)

lemma getName_addFolder [simp]: "getName (addFolder s p c) i = getName s i"
  by (simp add: addFolder_def)

lemma getKids_addFolder:
  "getKids (addFolder s p c) i =
     (if i = p \<and> isFolder s p \<and> c \<notin> set (getKids s p) then getKids s p @ [c] else getKids s i)"
  by (auto simp: addFolder_def getKids_setKids)

lemma filter_eq_upt: "filter (\<lambda>p. p = d) [0..<n] = (if d < n then [d] else [])"
  by (induction n) auto

lemma getParents_eq_single:
  assumes "d < length s" and "\<And>p. p < length s \<Longrightarrow> (c \<in> set (getKids s p)) = (p = d)"
  shows "getParents s c = [d]"
proof -
  have "filter (\<lambda>p. c \<in> set (getKids s p)) [0..<length s] = filter (\<lambda>p. p = d) [0..<length s]"
    using assms(2) by (intro filter_cong) auto
  then show ?thesis using assms(1) by (simp add: getParents_def filter_eq_upt)
qed


lemma getParents_removeFromParents: "getParents (removeFromParents s c) c = []"
  by (simp add: getParents_def getKids_removeFromParents)

lemma getKids_move:
  "isFolder s D \<Longrightarrow>
   getKids (addFolder (removeFromParents s S) D S) p =
     (if p = D then removeAll S (getKids s D) @ [S] else removeAll S (getKids s p))"
  by (simp add: getKids_addFolder getKids_removeFromParents)

lemma getParents_move:
  assumes "isFolder s D"
  shows "getParents (addFolder (removeFromParents s S) D S) S = [D]"
proof (rule getParents_eq_single)
  show "D < length (addFolder (removeFromParents s S) D S)"
    using assms by (simp add: isFolder_def)
next
  fix p
  show "(S \<in> set (getKids (addFolder (removeFromParents s S) D S) p)) = (p = D)"
    using assms by (simp add: getKids_move)
qed

text \<open>
  Claim C3. When \<open>S\<close> and \<open>D\<close> are folders, \<^verbatim>\<open>moveFolderToFolderById\<close> returns, and
  afterwards \<open>D\<close> is the one parent of \<open>S\<close>, whatever parents \<open>S\<close> had: every folder has
  lost \<open>S\<close> from its children, \<open>D\<close> has gained it once, and no other edge, name or kind
  has changed.
\<close>

theorem moveFolderToFolderById_sole_parent:
  assumes "isFolder s S" and "isFolder s D"
  shows "\<exists>s'. moveFolderToFolderById s S D = (Inr (), s')
           \<and> getParents s' S = [D]
           \<and> getKids s' D = removeAll S (getKids s D) @ [S]
           \<and> (\<forall>p. p \<noteq> D \<longrightarrow> getKids s' p = removeAll S (getKids s p))
           \<and> length s' = length s
           \<and> (\<forall>i. isFolder s' i = isFolder s i \<and> getName s' i = getName s i)"
  using assms
  by (simp add: moveFolderToFolderById_def getFolderById_def getParents_move getKids_move)

theorem moveFolderToFolderById_sole_parent_witness:
  "isFolder ex_parents 4 \<and> isFolder ex_parents 3
   \<and> getParents ex_parents 4 = [1, 2]
   \<and> fst (moveFolderToFolderById ex_parents 4 3) = Inr ()
   \<and> getParents (snd (moveFolderToFolderById ex_parents 4 3)) 4 = [3]"
proof -
  have h1: "isFolder ex_parents 4" and h2: "isFolder ex_parents 3"
    by (simp_all add: ex_parents_def store_eval)
  have b: "getParents ex_parents 4 = [1, 2]"
    by (simp add: ex_parents_def store_eval upt_rec)
  from moveFolderToFolderById_sole_parent [OF h1 h2]
  obtain s' where "moveFolderToFolderById ex_parents 4 3 = (Inr (), s')"
    and "getParents s' 4 = [3]" by blast
  then show ?thesis using h1 h2 b by simp
qed

lemma hd_getFoldersByName:
  "getFoldersByName s nm = f # fs \<Longrightarrow> isFolder s f"
proof -
  assume "getFoldersByName s nm = f # fs"
  then have "f \<in> set (getFoldersByName s nm)" by simp
  then show ?thesis by (simp add: getFoldersByName_def)
qed

text \<open>
  Claim C5, as stated, fails: with two folders named \<open>D\<close> the call does not end in the
  error about the destination whatever the flag is. The check of the source comes first,
  so with two folders named \<open>S\<close> as well and the flag set, the error is the one about
  the source.
\<close>

theorem moveFolderToFolderByName_uniqueness_counterexample:
  "1 < length (getFoldersByName ex_names ''D'')
   \<and> moveFolderToFolderByName ex_names ''S'' ''D'' True =
       (Inl (Error ''Source Folder NameSnot unique''), ex_names)
   \<and> moveFolderToFolderByName ex_names ''S'' ''D'' False =
       (Inl (Error ''Destination Folder Name: D not unique''), ex_names)"
  by (simp add: ex_names_def store_eval upt_rec moveFolderToFolderByName_def)

text \<open>
  Claim C5, amended. With the flag set and several folders of the source name, the call
  ends in the error about the source and leaves the store alone. With several folders of
  the destination name it ends in the error about the destination and leaves the store
  alone, whatever the flag is, unless that check of the source has failed before. With the
  flag unset, several folders of the source name are no error: given one destination that
  holds no folder of the source name, the first of them is moved and ends with the
  destination as its one parent.
\<close>

theorem moveFolderToFolderByName_uniqueness:
  "(isUnique \<and> 1 < length (getFoldersByName s src) \<longrightarrow>
      moveFolderToFolderByName s src dst isUnique =
        (Inl (Error (''Source Folder Name'' @ src @ ''not unique'')), s))
   \<and> (1 < length (getFoldersByName s dst)
        \<and> \<not> (isUnique \<and> 1 < length (getFoldersByName s src)) \<longrightarrow>
      moveFolderToFolderByName s src dst isUnique =
        (Inl (Error (''Destination Folder Name: '' @ dst @ '' not unique'')), s))
   \<and> (\<not> isUnique \<and> 1 < length (getFoldersByName s src)
        \<and> getFoldersByName s dst = [t]
        \<and> (\<forall>c \<in> set (getFolders s t). getName s c \<noteq> src) \<longrightarrow>
      moveFolderToFolderByName s src dst isUnique =
        (Inr (), addFolder (removeFromParents s (hd (getFoldersByName s src))) t
                   (hd (getFoldersByName s src)))
      \<and> getParents (snd (moveFolderToFolderByName s src dst isUnique))
            (hd (getFoldersByName s src)) = [t])"
proof (intro conjI impI)
  assume "isUnique \<and> 1 < length (getFoldersByName s src)"
  then show "moveFolderToFolderByName s src dst isUnique =
        (Inl (Error (''Source Folder Name'' @ src @ ''not unique'')), s)"
    by (cases "getFoldersByName s src") (auto simp: moveFolderToFolderByName_def)
next
  assume a: "1 < length (getFoldersByName s dst)
        \<and> \<not> (isUnique \<and> 1 < length (getFoldersByName s src))"
  then obtain t1 t2 ts where d: "getFoldersByName s dst = t1 # t2 # ts"
    by (cases "getFoldersByName s dst"; cases "tl (getFoldersByName s dst)") auto
  from a have "\<not> (getFoldersByName s src \<noteq> [] \<and> isUnique \<and> tl (getFoldersByName s src) \<noteq> [])"
    by (cases "getFoldersByName s src"; cases "tl (getFoldersByName s src)") auto
  then show "moveFolderToFolderByName s src dst isUnique =
        (Inl (Error (''Destination Folder Name: '' @ dst @ '' not unique'')), s)"
    using d by (simp add: moveFolderToFolderByName_def Let_def)
next
  assume a: "\<not> isUnique \<and> 1 < length (getFoldersByName s src)
        \<and> getFoldersByName s dst = [t]
        \<and> (\<forall>c \<in> set (getFolders s t). getName s c \<noteq> src)"
  then obtain f fs where f: "getFoldersByName s src = f # fs"
    by (cases "getFoldersByName s src") auto
  from a have t: "isFolder s t" by (auto intro: hd_getFoldersByName)
  from a f show m: "moveFolderToFolderByName s src dst isUnique =
        (Inr (), addFolder (removeFromParents s (hd (getFoldersByName s src))) t
                   (hd (getFoldersByName s src)))"
    by (simp add: moveFolderToFolderByName_def moveFolderToFolderByName_move_def Let_def)
  show "getParents (snd (moveFolderToFolderByName s src dst isUnique))
            (hd (getFoldersByName s src)) = [t]"
    using t by (simp add: m getParents_move)
qed

theorem moveFolderToFolderByName_uniqueness_witness:
  "1 < length (getFoldersByName ex_names ''S'')
   \<and> 1 < length (getFoldersByName ex_names ''D'')
   \<and> getFoldersByName ex_names ''T'' = [5]
   \<and> filter (\<lambda>c. getName ex_names c = ''S'') (getFolders ex_names 5) = []
   \<and> hd (getFoldersByName ex_names ''S'') = 1
   \<and> moveFolderToFolderByName ex_names ''S'' ''T'' True =
        (Inl (Error (''Source Folder Name'' @ ''S'' @ ''not unique'')), ex_names)
   \<and> moveFolderToFolderByName ex_names ''S'' ''D'' False =
        (Inl (Error (''Destination Folder Name: '' @ ''D'' @ '' not unique'')), ex_names)
   \<and> fst (moveFolderToFolderByName ex_names ''S'' ''T'' False) = Inr ()
   \<and> getParents (snd (moveFolderToFolderByName ex_names ''S'' ''T'' False)) 1 = [5]"
proof -
  have h1: "1 < length (getFoldersByName ex_names ''S'')"
    and h2: "1 < length (getFoldersByName ex_names ''D'')"
    and h3: "getFoldersByName ex_names ''T'' = [5]"
    and h4: "filter (\<lambda>c. getName ex_names c = ''S'') (getFolders ex_names 5) = []"
    and h5: "hd (getFoldersByName ex_names ''S'') = 1"
    by (simp_all add: ex_names_def store_eval upt_rec)
  from h4 have h4': "\<forall>c \<in> set (getFolders ex_names 5). getName ex_names c \<noteq> ''S''"
    by (simp add: filter_empty_conv)
  note a = moveFolderToFolderByName_uniqueness [of True ex_names "''S''" "''T''" 5]
  note b = moveFolderToFolderByName_uniqueness [of False ex_names "''S''" "''D''" 5]
  note c = moveFolderToFolderByName_uniqueness [of False ex_names "''S''" "''T''" 5]
  from a h1 have c1: "moveFolderToFolderByName ex_names ''S'' ''T'' True =
        (Inl (Error (''Source Folder Name'' @ ''S'' @ ''not unique'')), ex_names)" by blast
  from b h2 have c2: "moveFolderToFolderByName ex_names ''S'' ''D'' False =
        (Inl (Error (''Destination Folder Name: '' @ ''D'' @ '' not unique'')), ex_names)"
    by blast
  from c h1 h3 h4' have c3: "moveFolderToFolderByName ex_names ''S'' ''T'' False =
        (Inr (), addFolder (removeFromParents ex_names (hd (getFoldersByName ex_names ''S''))) 5
                   (hd (getFoldersByName ex_names ''S'')))"
    and c4: "getParents (snd (moveFolderToFolderByName ex_names ''S'' ''T'' False))
            (hd (getFoldersByName ex_names ''S'')) = [5]" by blast+
  from c3 have c3': "fst (moveFolderToFolderByName ex_names ''S'' ''T'' False) = Inr ()"
    by simp
  from c4 have c4': "getParents (snd (moveFolderToFolderByName ex_names ''S'' ''T'' False)) 1 = [5]"
    by (simp only: h5)
  show ?thesis using h1 h2 h3 h4 h5 c1 c2 c3' c4' by blast
qed

text \<open>The three errors that the function throws itself, and a missing source, leave the
  store as it was.\<close>

lemma moveFolderToFolderByName_thrown_unchanged:
  "moveFolderToFolderByName s src dst isUnique = (Inl (Error m), s') \<Longrightarrow> s' = s"
  by (auto simp: moveFolderToFolderByName_def moveFolderToFolderByName_move_def Let_def
      split: if_splits list.splits option.splits)

lemma moveFolderToFolderByName_missing_source_unchanged:
  "getFoldersByName s src = [] \<Longrightarrow> snd (moveFolderToFolderByName s src dst isUnique) = s"
  by (auto simp: moveFolderToFolderByName_def moveFolderToFolderByName_move_def Let_def
      split: if_splits list.splits option.splits)

text \<open>
  Claim C1 does not hold of the code. \<open>Reports\<close> exists and no folder is named
  \<open>Nowhere\<close>: the call ends in a \<^verbatim>\<open>TypeError\<close>, raised by
  \<^verbatim>\<open>targetFolder.addFolder\<close> on \<^verbatim>\<open>undefined\<close>, after the loop has taken \<open>Reports\<close>
  out of both of its parents.
\<close>

theorem moveFolderToFolderByName_not_atomic:
  "getFoldersByName ex_parents ''Nowhere'' = []
   \<and> getFoldersByName ex_parents ''Reports'' = [4]
   \<and> getParents ex_parents 4 = [1, 2]
   \<and> fst (moveFolderToFolderByName ex_parents ''Reports'' ''Nowhere'' False) = Inl TypeError
   \<and> getParents (snd (moveFolderToFolderByName ex_parents ''Reports'' ''Nowhere'' False)) 4 = []
   \<and> snd (moveFolderToFolderByName ex_parents ''Reports'' ''Nowhere'' False) \<noteq> ex_parents"
  by (simp add: ex_parents_def store_eval upt_rec moveFolderToFolderByName_def
      moveFolderToFolderByName_move_def removeFromParents_def removeFolder_def setKids_def)

text \<open>
  Claim C2 does not hold of the code. When no folder has the destination name, the call
  ends in a \<^verbatim>\<open>TypeError\<close>. When no folder has the source name either, the store is as
  before; when the source is found (and the check of its uniqueness passes), the source
  has been taken out of all its parents by then and is left with none.
\<close>

theorem moveFolderToFolderByName_missing_destination:
  assumes "getFoldersByName s dst = []"
  shows "(getFoldersByName s src = [] \<longrightarrow>
            moveFolderToFolderByName s src dst isUnique = (Inl TypeError, s))
       \<and> (\<forall>f fs. getFoldersByName s src = f # fs \<and> \<not> (isUnique \<and> fs \<noteq> []) \<longrightarrow>
            moveFolderToFolderByName s src dst isUnique = (Inl TypeError, removeFromParents s f)
            \<and> getParents (removeFromParents s f) f = [])"
  using assms
  by (auto simp: moveFolderToFolderByName_def moveFolderToFolderByName_move_def
      getParents_removeFromParents)

theorem moveFolderToFolderByName_missing_destination_witness:
  "getFoldersByName ex_names ''Nowhere'' = []
   \<and> getFoldersByName ex_names ''T'' = [5]
   \<and> getParents ex_names 5 = [0]
   \<and> moveFolderToFolderByName ex_names ''T'' ''Nowhere'' True =
        (Inl TypeError, removeFromParents ex_names 5)
   \<and> getParents (removeFromParents ex_names 5) 5 = []
   \<and> getFoldersByName ex_names ''Nothing'' = []
   \<and> moveFolderToFolderByName ex_names ''Nothing'' ''Nowhere'' True = (Inl TypeError, ex_names)"
proof -
  have h1: "getFoldersByName ex_names ''Nowhere'' = []"
    and h2: "getFoldersByName ex_names ''T'' = [5]"
    and h3: "getParents ex_names 5 = [0]"
    and h4: "getFoldersByName ex_names ''Nothing'' = []"
    by (simp_all add: ex_names_def store_eval upt_rec)
  note a = moveFolderToFolderByName_missing_destination [OF h1, of "''T''" True]
  note b = moveFolderToFolderByName_missing_destination [OF h1, of "''Nothing''" True]
  from a h2 have c1: "moveFolderToFolderByName ex_names ''T'' ''Nowhere'' True =
        (Inl TypeError, removeFromParents ex_names 5)"
    and c2: "getParents (removeFromParents ex_names 5) 5 = []" by blast+
  from b h4 have c3: "moveFolderToFolderByName ex_names ''Nothing'' ''Nowhere'' True =
        (Inl TypeError, ex_names)" by blast
  show ?thesis using h1 h2 h3 h4 c1 c2 c3 by blast
qed

section \<open>Properties of \<^verbatim>\<open>findOrCreateFolder\<close>\<close>

lemmas create_eval =
  findOrCreateFolder_def createFolder_def createFolderIn_def moveTo_def addFolder_def
  removeFromParents_def removeFolder_def setKids_def rootFolder_def makeCopy_def

text \<open>
  Claim C10, as stated, fails when the parent is the root folder of the Drive: the folder
  that \<^verbatim>\<open>DriveApp.createFolder\<close> puts into the root is then below the parent, the
  second call finds it and creates nothing.
\<close>

theorem findOrCreateFolder_duplicates_counterexample:
  "findFolderByName 2 ex_empty rootFolder ''Invoices'' = Some (Inr None)
   \<and> findOrCreateFolder 2 ex_empty rootFolder ''Invoices'' False =
     Some (Inr 1, [\<lparr>name = ''root'', kind = Folder, content = '''', kids = [1]\<rparr>,
                   \<lparr>name = ''Invoices'', kind = Folder, content = '''', kids = []\<rparr>])
   \<and> findOrCreateFolder 2
        [\<lparr>name = ''root'', kind = Folder, content = '''', kids = [1]\<rparr>,
         \<lparr>name = ''Invoices'', kind = Folder, content = '''', kids = []\<rparr>]
        rootFolder ''Invoices'' False =
     Some (Inr 1, [\<lparr>name = ''root'', kind = Folder, content = '''', kids = [1]\<rparr>,
                   \<lparr>name = ''Invoices'', kind = Folder, content = '''', kids = []\<rparr>])"
  by (simp add: ex_empty_def store_eval search_eval create_eval eval_nat_numeral)


lemma isFolder_append: "isFolder (s @ [nd]) i = (isFolder s i \<or> i = length s \<and> kind nd = Folder)"
  by (auto simp: isFolder_def nth_append)

lemma isFile_append: "isFile (s @ [nd]) i = (isFile s i \<or> i = length s \<and> kind nd = File)"
  by (auto simp: isFile_def nth_append)

lemma getName_append: "i < length s \<Longrightarrow> getName (s @ [nd]) i = getName s i"
  by (simp add: getName_def nth_append)

lemma getKids_append:
  "getKids (s @ [nd]) i =
     (if i = length s then (if kind nd = Folder then kids nd else []) else getKids s i)"
  by (auto simp: getKids_def isFolder_def nth_append)

lemma wf_getKids: "wf_store s \<Longrightarrow> c \<in> set (getKids s i) \<Longrightarrow> c < length s"
  by (auto simp: wf_store_def getKids_def isFolder_def split: if_splits)

lemma length_createFolderIn: "length (snd (createFolderIn s p nm)) = Suc (length s)"
  by (simp add: createFolderIn_def Let_def)

lemma fst_createFolderIn: "fst (createFolderIn s p nm) = length s"
  by (simp add: createFolderIn_def Let_def)

lemma isFolder_createFolderIn:
  "isFolder (snd (createFolderIn s p nm)) i = (isFolder s i \<or> i = length s)"
  by (simp add: createFolderIn_def Let_def isFolder_append)

lemma isFile_addFolder [simp]: "isFile (addFolder s p c) i = isFile s i"
  by (simp add: addFolder_def)

lemma isFile_createFolderIn: "isFile (snd (createFolderIn s p nm)) i = isFile s i"
  by (simp add: createFolderIn_def Let_def isFile_append)

lemma getName_createFolderIn:
  "i \<le> length s \<Longrightarrow>
   getName (snd (createFolderIn s p nm)) i = (if i = length s then nm else getName s i)"
  by (auto simp: createFolderIn_def Let_def getName_append) (simp add: getName_def)

lemma getKids_createFolderIn:
  assumes "wf_store s" and "isFolder s p"
  shows "getKids (snd (createFolderIn s p nm)) i =
           (if i = p then getKids s p @ [length s] else getKids s i)"
proof -
  have "p < length s" using assms(2) by (simp add: isFolder_def)
  moreover have "length s \<notin> set (getKids s p)" using wf_getKids [OF assms(1)] by blast
  moreover have "getKids s (length s) = []" by (simp add: getKids_def isFolder_def)
  ultimately show ?thesis using assms(2)
    by (auto simp: createFolderIn_def Let_def getKids_addFolder getKids_append isFolder_append)
qed


lemma getFolders_createFolderIn:
  assumes "wf_store s" and "isFolder s p"
  shows "getFolders (snd (createFolderIn s p nm)) i =
           (if i = p then getFolders s p @ [length s] else getFolders s i)"
proof -
  have "filter (isFolder (snd (createFolderIn s p nm))) (getKids s j) =
        filter (isFolder s) (getKids s j)" for j
    using wf_getKids [OF assms(1)]
    by (intro filter_cong) (auto simp: isFolder_createFolderIn)
  then show ?thesis
    using assms by (simp add: getFolders_def getKids_createFolderIn isFolder_createFolderIn)
qed

lemma wf_setKids:
  assumes "wf_store s" and "\<forall>c \<in> set ks. c < length s"
  shows "wf_store (setKids s p ks)"
proof (cases "p < length s")
  case True
  have "nd = (s ! p)\<lparr>kids := ks\<rparr> \<or> nd \<in> set s"
    if "nd \<in> set (s[p := (s ! p)\<lparr>kids := ks\<rparr>])" for nd
    using that set_update_subset_insert [of s p] by blast
  then have "\<forall>c \<in> set (kids nd). c < length s"
    if "nd \<in> set (s[p := (s ! p)\<lparr>kids := ks\<rparr>])" for nd
    using that assms by (fastforce simp: wf_store_def)
  then show ?thesis using True by (simp add: wf_store_def setKids_def)
next
  case False
  then show ?thesis using assms(1) by (simp add: setKids_def)
qed

lemma wf_append: "wf_store s \<Longrightarrow> kids nd = [] \<Longrightarrow> wf_store (s @ [nd])"
  by (auto simp: wf_store_def less_Suc_eq)

lemma wf_addFolder: "wf_store s \<Longrightarrow> c < length s \<Longrightarrow> wf_store (addFolder s p c)"
  by (auto simp: addFolder_def intro!: wf_setKids dest: wf_getKids)

lemma wf_createFolderIn: "wf_store s \<Longrightarrow> wf_store (snd (createFolderIn s p nm))"
  by (simp add: createFolderIn_def Let_def wf_addFolder wf_append)

lemma folder_order_cong:
  "\<forall>i \<in> insert f (set (folder_order n s f)). getFolders s' i = getFolders s i \<Longrightarrow>
   folder_order n s' f = folder_order n s f"
proof (induction n arbitrary: f)
  case 0
  then show ?case by simp
next
  case (Suc n)
  have top: "getFolders s' f = getFolders s f" using Suc.prems by simp
  have "folder_order n s' d = folder_order n s d" if "d \<in> set (getFolders s f)" for d
  proof (rule Suc.IH)
    show "\<forall>i \<in> insert d (set (folder_order n s d)). getFolders s' i = getFolders s i"
      using Suc.prems that by auto
  qed
  then show ?case by (simp add: top cong: map_cong)
qed

lemma fits_cong:
  "\<forall>i \<in> insert f (set (folder_order n s f)). getFolders s' i = getFolders s i \<Longrightarrow>
   fits n s' f = fits n s f"
proof (induction n arbitrary: f)
  case 0
  then show ?case by simp
next
  case (Suc n)
  have top: "getFolders s' f = getFolders s f" using Suc.prems by simp
  have "fits n s' d = fits n s d" if "d \<in> set (getFolders s f)" for d
  proof (rule Suc.IH)
    show "\<forall>i \<in> insert d (set (folder_order n s d)). getFolders s' i = getFolders s i"
      using Suc.prems that by auto
  qed
  then show ?case by (simp add: top)
qed

lemma folder_order_isFolder: "d \<in> set (folder_order n s f) \<Longrightarrow> isFolder s d"
proof (induction n arbitrary: f)
  case 0
  then show ?case by simp
next
  case (Suc n)
  then obtain c where "c \<in> set (getFolders s f)" and "d = c \<or> d \<in> set (folder_order n s c)"
    by auto
  then show ?case using Suc.IH by (auto simp: getFolders_def)
qed

text \<open>One call without \<open>moveTo\<close> where nothing below \<open>P\<close> has the name.\<close>

lemma findOrCreateFolder_create_step:
  assumes w: "wf_store s" and r: "isFolder s rootFolder" and p: "isFolder s P" and f: "fits n s P"
    and ne: "P \<noteq> rootFolder" and nr: "rootFolder \<notin> set (folder_order n s P)"
    and ab: "find (folderMatches s nm) (folder_order n s P) = None"
  defines "s1 \<equiv> snd (createFolder s nm)"
  shows "findOrCreateFolder n s P nm False = Some (Inr (length s), s1)"
    and "wf_store s1" and "isFolder s1 rootFolder" and "isFolder s1 P" and "fits n s1 P"
    and "rootFolder \<notin> set (folder_order n s1 P)"
    and "find (folderMatches s1 nm) (folder_order n s1 P) = None"
    and "length s1 = Suc (length s)"
    and "getKids s1 rootFolder = getKids s rootFolder @ [length s]"
    and "getName s1 (length s) = nm" and "isFolder s1 (length s)"
proof -
  show "findOrCreateFolder n s P nm False = Some (Inr (length s), s1)"
    using p f ab
    by (simp add: findOrCreateFolder_def findFolderByName_eq s1_def createFolder_def
        createFolderIn_def Let_def)
  show "wf_store s1" using w by (simp add: s1_def createFolder_def wf_createFolderIn)
  show "isFolder s1 rootFolder" and "isFolder s1 P" and "isFolder s1 (length s)"
    using r p by (simp_all add: s1_def createFolder_def isFolder_createFolderIn)
  show "length s1 = Suc (length s)"
    by (simp add: s1_def createFolder_def length_createFolderIn)
  show "getKids s1 rootFolder = getKids s rootFolder @ [length s]"
    using w r by (simp add: s1_def createFolder_def getKids_createFolderIn)
  show "getName s1 (length s) = nm"
    by (simp add: s1_def createFolder_def getName_createFolderIn)
  have same: "\<forall>i \<in> insert P (set (folder_order n s P)). getFolders s1 i = getFolders s i"
    using w r ne nr by (auto simp: s1_def createFolder_def getFolders_createFolderIn)
  then have o: "folder_order n s1 P = folder_order n s P" by (rule folder_order_cong)
  from fits_cong [OF same] f show "fits n s1 P" by simp
  show "rootFolder \<notin> set (folder_order n s1 P)" using nr by (simp add: o)
  have "\<not> folderMatches s1 nm i" if "i \<in> set (folder_order n s P)" for i
  proof -
    from that have "isFolder s i" by (rule folder_order_isFolder)
    then have "i < length s" by (simp add: isFolder_def)
    moreover from ab that have "\<not> folderMatches s nm i" by (simp add: find_None_iff)
    ultimately show ?thesis
      using \<open>isFolder s i\<close>
      by (simp add: folderMatches_def s1_def createFolder_def getName_createFolderIn
          isFolder_createFolderIn)
  qed
  then show "find (folderMatches s1 nm) (folder_order n s1 P) = None"
    by (simp add: o find_None_iff)
qed

text \<open>
  Claim C10, amended. Let the store be well formed, let \<open>P\<close> be a folder other than the
  root with the root not below it, let the fuel suffice and let no folder below \<open>P\<close> have
  the name. Without \<open>moveTo\<close> the call creates a folder in the root; the same call on
  the resulting store finds nothing below \<open>P\<close> again and creates a second folder of the
  same name in the root. What is below \<open>P\<close> stays as it was.
\<close>

theorem findOrCreateFolder_no_moveTo_duplicates:
  assumes "wf_store s" and "isFolder s rootFolder" and "isFolder s P" and "fits n s P"
    and "P \<noteq> rootFolder" and "rootFolder \<notin> set (folder_order n s P)"
    and "find (folderMatches s nm) (folder_order n s P) = None"
  shows "\<exists>s1 s2. findOrCreateFolder n s P nm False = Some (Inr (length s), s1)
           \<and> findOrCreateFolder n s1 P nm False = Some (Inr (Suc (length s)), s2)
           \<and> length s2 = Suc (Suc (length s))
           \<and> getKids s2 rootFolder = getKids s rootFolder @ [length s, Suc (length s)]
           \<and> isFolder s2 (length s) \<and> getName s2 (length s) = nm
           \<and> isFolder s2 (Suc (length s)) \<and> getName s2 (Suc (length s)) = nm
           \<and> folder_order n s2 P = folder_order n s P"
proof -
  define s1 where "s1 = snd (createFolder s nm)"
  define s2 where "s2 = snd (createFolder s1 nm)"
  note a = findOrCreateFolder_create_step [OF assms, folded s1_def]
  note b = findOrCreateFolder_create_step
    [OF a(2) a(3) a(4) a(5) assms(5) a(6) a(7), folded s2_def]
  have same1: "\<forall>i \<in> insert P (set (folder_order n s P)). getFolders s1 i = getFolders s i"
    using assms by (auto simp: s1_def createFolder_def getFolders_createFolderIn)
  then have o1: "folder_order n s1 P = folder_order n s P" by (rule folder_order_cong)
  have same2: "\<forall>i \<in> insert P (set (folder_order n s1 P)). getFolders s2 i = getFolders s1 i"
    using a assms(5) by (auto simp: s2_def createFolder_def getFolders_createFolderIn)
  then have o2: "folder_order n s2 P = folder_order n s1 P" by (rule folder_order_cong)
  have n1: "getName s2 (length s) = nm" and f1: "isFolder s2 (length s)"
    using a(8,10,11)
    by (simp_all add: s2_def createFolder_def getName_createFolderIn isFolder_createFolderIn)
  show ?thesis
    using a(1) b(1) b(8,9,10,11) a(8,9) n1 f1 o1 o2 by simp
qed

theorem findOrCreateFolder_no_moveTo_duplicates_witness:
  "wf_store ex_nested \<and> isFolder ex_nested rootFolder \<and> isFolder ex_nested 1
   \<and> fits 3 ex_nested 1 \<and> 1 \<noteq> rootFolder
   \<and> rootFolder \<notin> set (folder_order 3 ex_nested 1)
   \<and> find (folderMatches ex_nested ''Invoices'') (folder_order 3 ex_nested 1) = None
   \<and> (\<exists>s1 s2. findOrCreateFolder 3 ex_nested 1 ''Invoices'' False = Some (Inr 6, s1)
          \<and> findOrCreateFolder 3 s1 1 ''Invoices'' False = Some (Inr 7, s2)
          \<and> getKids s2 rootFolder = [1, 2, 4, 6, 7])"
proof -
  have h1: "wf_store ex_nested"
    by (simp add: ex_nested_def wf_store_def)
  have h2: "isFolder ex_nested rootFolder" and h3: "isFolder ex_nested 1"
    and h5: "1 \<noteq> rootFolder"
    by (simp_all add: ex_nested_def store_eval rootFolder_def)
  have h4: "fits 3 ex_nested 1"
    by (simp add: eval_nat_numeral ex_nested_def store_eval)
  have h6: "rootFolder \<notin> set (folder_order 3 ex_nested 1)"
    by (simp add: eval_nat_numeral ex_nested_def store_eval rootFolder_def)
  have h7: "find (folderMatches ex_nested ''Invoices'') (folder_order 3 ex_nested 1) = None"
    by (simp add: eval_nat_numeral ex_nested_def store_eval search_eval)
  have l: "length ex_nested = 6" and k: "getKids ex_nested rootFolder = [1, 2, 4]"
    by (simp_all add: ex_nested_def store_eval rootFolder_def)
  from findOrCreateFolder_no_moveTo_duplicates [OF h1 h2 h3 h4 h5 h6 h7]
  have "\<exists>s1 s2. findOrCreateFolder 3 ex_nested 1 ''Invoices'' False = Some (Inr 6, s1)
          \<and> findOrCreateFolder 3 s1 1 ''Invoices'' False = Some (Inr 7, s2)
          \<and> getKids s2 rootFolder = [1, 2, 4, 6, 7]"
    by (simp add: l k) blast
  then show ?thesis using h1 h2 h3 h4 h5 h6 h7 by blast
qed

section \<open>Properties of \<^verbatim>\<open>copyFolder\<close>\<close>

lemma frame_refl: "frame s s tgt"
  by (simp add: frame_def)

lemma frame_length: "frame s s' tgt \<Longrightarrow> length s \<le> length s'"
  by (simp add: frame_def)

lemma frame_trans:
  "frame s s1 t1 \<Longrightarrow> frame s1 s2 t2 \<Longrightarrow> t2 = t1 \<or> length s \<le> t2 \<Longrightarrow> frame s s2 t1"
  by (auto simp: frame_def)

lemma frame_isFolder: "frame s s' tgt \<Longrightarrow> i < length s \<Longrightarrow> isFolder s' i = isFolder s i"
  by (auto simp: frame_def isFolder_def)

lemma frame_isFolderD: "frame s s' tgt \<Longrightarrow> isFolder s i \<Longrightarrow> isFolder s' i"
  by (auto simp: frame_def isFolder_def)

lemma frame_isFile: "frame s s' tgt \<Longrightarrow> i < length s \<Longrightarrow> isFile s' i = isFile s i"
  by (auto simp: frame_def isFile_def)

lemma frame_getName: "frame s s' tgt \<Longrightarrow> i < length s \<Longrightarrow> getName s' i = getName s i"
  by (simp add: frame_def getName_def)

lemma frame_content: "frame s s' tgt \<Longrightarrow> i < length s \<Longrightarrow> content (s' ! i) = content (s ! i)"
  by (simp add: frame_def)

lemma frame_getKids:
  "frame s s' tgt \<Longrightarrow> i < length s \<Longrightarrow> i \<noteq> tgt \<Longrightarrow> getKids s' i = getKids s i"
  by (auto simp: frame_def getKids_def isFolder_def)

lemma frame_append: "frame s (s @ [nd]) tgt"
  by (simp add: frame_def nth_append)

lemma frame_setKids: "frame s (setKids s p ks) p"
  by (auto simp: frame_def setKids_def nth_list_update)

lemma frame_addFolder: "frame s (addFolder s p c) p"
  by (simp add: addFolder_def frame_refl frame_setKids)

lemma frame_createFolderIn: "frame s (snd (createFolderIn s tgt nm)) tgt"
  by (auto simp: createFolderIn_def Let_def intro: frame_trans frame_append frame_addFolder)

lemma frame_makeCopy: "frame s (makeCopy s f nm tgt) tgt"
  by (auto simp: makeCopy_def Let_def intro: frame_trans frame_append frame_addFolder)

lemma copy_in_mono:
  "copy_in lo hi s t i \<Longrightarrow> lo' \<le> lo \<Longrightarrow> hi \<le> hi' \<Longrightarrow> copy_in lo' hi' s t i"
proof (induction t arbitrary: i)
  case (Leaf nm c)
  then show ?case by simp
next
  case (Branch nm ts)
  from Branch.prems have "list_all2 (copy_in lo hi s) ts (getKids s i)" by simp
  then have "list_all2 (copy_in lo' hi' s) ts (getKids s i)"
    using Branch.IH Branch.prems(2,3) by (auto elim!: list.rel_mono_strong)
  then show ?case using Branch.prems by simp
qed

lemma copy_in_frame:
  "copy_in lo hi s t i \<Longrightarrow> frame s s' tgt \<Longrightarrow> tgt < lo \<Longrightarrow> copy_in lo hi s' t i"
proof (induction t arbitrary: i)
  case (Leaf nm c)
  then have "i < length s" by (simp add: isFile_def)
  then show ?case using Leaf
    by (simp add: frame_isFile frame_getName frame_content)
next
  case (Branch nm ts)
  from Branch.prems have i: "i < length s" "i \<noteq> tgt" by (auto simp: isFolder_def)
  from Branch.prems have "list_all2 (copy_in lo hi s) ts (getKids s i)" by simp
  then have "list_all2 (copy_in lo hi s') ts (getKids s i)"
    using Branch.IH Branch.prems(2,3) by (auto elim!: list.rel_mono_strong)
  then show ?case using Branch.prems i
    by (simp add: frame_isFolder frame_getName frame_getKids)
qed

lemma frame_labels: "frame s s' tgt \<Longrightarrow> map label (take (length s) s') = map label s"
  by (auto simp: frame_def label_def list_eq_iff_nth_eq)

lemma copied_Nil: "wf_store s \<Longrightarrow> copied s s tgt [] []"
  by (simp add: copied_def frame_refl)

lemma copied_append:
  assumes a: "copied s s1 tgt ts1 n1" and b: "copied s1 s2 tgt ts2 n2" and t: "tgt < length s"
  shows "copied s s2 tgt (ts1 @ ts2) (n1 @ n2)"
proof -
  from a have f1: "frame s s1 tgt" by (simp add: copied_def)
  from b have f2: "frame s1 s2 tgt" by (simp add: copied_def)
  have l1: "length s \<le> length s1" and l2: "length s1 \<le> length s2"
    using f1 f2 by (simp_all add: frame_length)
  have f: "frame s s2 tgt" using f1 f2 by (rule frame_trans) simp
  have k: "getKids s2 tgt = getKids s tgt @ n1 @ n2"
    using a b by (simp add: copied_def)
  have "list_all2 (copy_in (length s) (length s1) s1) ts1 n1"
    using a by (simp add: copied_def)
  then have c1: "list_all2 (copy_in (length s) (length s2) s2) ts1 n1"
    using f2 t l2 by (auto elim!: list.rel_mono_strong intro: copy_in_mono copy_in_frame)
  have "list_all2 (copy_in (length s1) (length s2) s2) ts2 n2"
    using b by (simp add: copied_def)
  then have c2: "list_all2 (copy_in (length s) (length s2) s2) ts2 n2"
    using l1 by (auto elim!: list.rel_mono_strong intro: copy_in_mono)
  have "map label s2 = map label (take (length s1) s2) @ map label (drop (length s1) s2)"
    by (simp flip: map_append)
  then have "map label s2 = map label s1 @ map label (drop (length s1) s2)"
    using f2 by (simp add: frame_labels)
  then have "drop (length s) (map label s2) =
      drop (length s) (map label s1) @ map label (drop (length s1) s2)"
    using l1 by simp
  then have lb: "map label (drop (length s) s2) = concat (map flat (ts1 @ ts2))"
    using a b by (simp add: copied_def drop_map)
  show ?thesis
    using b f k c1 c2 lb by (simp add: copied_def list_all2_appendI)
qed

text \<open>A new node without children, put into \<open>tgt\<close>.\<close>

lemma attach_new:
  assumes "wf_store s" and "isFolder s tgt" and "kids nd = []"
  defines "s' \<equiv> addFolder (s @ [nd]) tgt (length s)"
  shows "length s' = Suc (length s)" and "wf_store s'" and "frame s s' tgt"
    and "getKids s' tgt = getKids s tgt @ [length s]"
    and "label (s' ! length s) = label nd" and "getKids s' (length s) = []"
proof -
  have t: "tgt < length s" using assms(2) by (simp add: isFolder_def)
  have nk: "length s \<notin> set (getKids s tgt)" using wf_getKids [OF assms(1)] by blast
  show "length s' = Suc (length s)" by (simp add: s'_def)
  show "wf_store s'" using assms(1,3) by (simp add: s'_def wf_addFolder wf_append)
  show "frame s s' tgt"
    unfolding s'_def by (rule frame_trans [OF frame_append frame_addFolder]) simp
  show "getKids s' tgt = getKids s tgt @ [length s]"
    using t nk assms(2) by (simp add: s'_def getKids_addFolder getKids_append isFolder_append)
  show "label (s' ! length s) = label nd"
    using t by (simp add: s'_def addFolder_def setKids_def label_def nth_append)
  show "getKids s' (length s) = []"
    using t assms(3) by (simp add: s'_def getKids_addFolder getKids_append)
qed

lemma copied_makeCopy:
  assumes "wf_store s" and "isFolder s tgt"
  shows "copied s (makeCopy s f nm tgt) tgt [Leaf nm (content (s ! f))] [length s]"
proof -
  define nd where "nd = \<lparr>name = nm, kind = File, content = content (s ! f), kids = []\<rparr>"
  have m: "makeCopy s f nm tgt = addFolder (s @ [nd]) tgt (length s)"
    by (simp add: makeCopy_def nd_def Let_def)
  have k: "kids nd = []" by (simp add: nd_def)
  note a = attach_new [OF assms k, folded m]
  have lb: "label (makeCopy s f nm tgt ! length s) = (File, nm, content (s ! f))"
    using a(5) by (simp add: nd_def label_def)
  then have "copy_in (length s) (Suc (length s)) (makeCopy s f nm tgt)
      (Leaf nm (content (s ! f))) (length s)"
    using a(1) by (simp add: isFile_def getName_def label_def)
  moreover have "drop (length s) (makeCopy s f nm tgt) = [makeCopy s f nm tgt ! length s]"
    using a(1) by (simp flip: Cons_nth_drop_Suc)
  ultimately show ?thesis
    using a lb by (simp add: copied_def)
qed

lemma copyFolder_files_copied:
  "wf_store s \<Longrightarrow> isFolder s tgt \<Longrightarrow> \<forall>f \<in> set fs. isFile s f \<Longrightarrow>
   \<exists>news. copied s (copyFolder_files fs tgt s) tgt
            (map (\<lambda>i. Leaf (getName s i) (content (s ! i))) fs) news"
proof (induction fs arbitrary: s)
  case Nil
  then have "copied s s tgt [] []" by (simp add: copied_Nil)
  then show ?case by auto
next
  case (Cons f fs)
  define s1 where "s1 = makeCopy s f (getName s f) tgt"
  have c1: "copied s s1 tgt [Leaf (getName s f) (content (s ! f))] [length s]"
    unfolding s1_def using Cons.prems(1,2) by (rule copied_makeCopy)
  then have w1: "wf_store s1" and f1: "frame s s1 tgt" by (simp_all add: copied_def)
  have t1: "isFolder s1 tgt" using f1 Cons.prems(2) by (rule frame_isFolderD)
  have r: "\<forall>g \<in> set fs. g < length s" using Cons.prems(3) by (simp add: isFile_def)
  then have fl: "\<forall>g \<in> set fs. isFile s1 g" using Cons.prems(3) f1 by (simp add: frame_isFile)
  from Cons.IH [OF w1 t1 fl] obtain news
    where c2: "copied s1 (copyFolder_files fs tgt s1) tgt
            (map (\<lambda>i. Leaf (getName s1 i) (content (s1 ! i))) fs) news" by blast
  have "map (\<lambda>i. Leaf (getName s1 i) (content (s1 ! i))) fs =
        map (\<lambda>i. Leaf (getName s i) (content (s ! i))) fs"
    using r f1 by (simp add: frame_getName frame_content)
  with c2 have c2': "copied s1 (copyFolder_files fs tgt s1) tgt
            (map (\<lambda>i. Leaf (getName s i) (content (s ! i))) fs) news" by simp
  have "tgt < length s" using Cons.prems(2) by (simp add: isFolder_def)
  from copied_append [OF c1 c2' this] show ?case
    by (auto simp: s1_def)
qed

lemma file_order_in_range: "i \<in> set (file_order n s f) \<Longrightarrow> i < length s"
proof (induction n arbitrary: f)
  case 0
  then show ?case by simp
next
  case (Suc n)
  then show ?case
    by (auto simp: getFiles_def getFolders_def isFile_def isFolder_def)
qed

lemma getFolders_subset_file_order:
  "d \<in> set (getFolders s f) \<Longrightarrow> insert d (set (file_order n s d)) \<subseteq> set (file_order (Suc n) s f)"
  by auto

lemma below_cong:
  assumes fr: "frame s s' tgt" and w: "wf_store s"
  shows "isFolder s f \<Longrightarrow> tgt \<notin> insert f (set (file_order n s f)) \<Longrightarrow>
         file_order n s' f = file_order n s f \<and> forest n s' f = forest n s f
         \<and> fits n s' f = fits n s f"
proof (induction n arbitrary: f)
  case 0
  then show ?case by simp
next
  case (Suc n)
  have fl: "f < length s" using Suc.prems(1) by (simp add: isFolder_def)
  have ft: "f \<noteq> tgt" using Suc.prems(2) by auto
  have k: "getKids s' f = getKids s f" using fr fl ft by (rule frame_getKids)
  have kr: "c < length s" if "c \<in> set (getKids s f)" for c
    using that w by (rule wf_getKids [rotated])
  have files: "getFiles s' f = getFiles s f"
    unfolding getFiles_def k using kr fr by (intro filter_cong) (auto simp: frame_isFile)
  have folders: "getFolders s' f = getFolders s f"
    unfolding getFolders_def k using kr fr by (intro filter_cong) (auto simp: frame_isFolder)
  have sub: "file_order n s' d = file_order n s d \<and> forest n s' d = forest n s d
         \<and> fits n s' d = fits n s d" if d: "d \<in> set (getFolders s f)" for d
  proof (rule Suc.IH)
    show "isFolder s d" using d by (simp add: getFolders_def)
    show "tgt \<notin> insert d (set (file_order n s d))"
      using Suc.prems(2) getFolders_subset_file_order [OF d, of n] by blast
  qed
  have leaf: "getName s' c = getName s c \<and> content (s' ! c) = content (s ! c)"
    if "c \<in> set (getFiles s f)" for c
  proof -
    from that have "c < length s" by (simp add: getFiles_def isFile_def)
    then show ?thesis using fr by (simp add: frame_getName frame_content)
  qed
  have nm: "getName s' d = getName s d" if "d \<in> set (getFolders s f)" for d
  proof -
    from that have "d < length s" by (simp add: getFolders_def isFolder_def)
    then show ?thesis using fr by (simp add: frame_getName)
  qed
  show ?case
    using sub leaf nm by (simp add: files folders cong: map_cong)
qed

lemma copied_createFolderIn_then_copy:
  assumes w: "wf_store s" and tg: "isFolder s tgt"
    and sa: "sa = snd (createFolderIn s tgt nm)"
    and c: "copied sa sb (length s) ts news"
  shows "copied s sb tgt [Branch nm ts] [length s]"
proof -
  define nd where "nd = \<lparr>name = nm, kind = Folder, content = [], kids = []\<rparr>"
  have sa': "sa = addFolder (s @ [nd]) tgt (length s)"
    by (simp add: sa createFolderIn_def nd_def Let_def)
  have k: "kids nd = []" by (simp add: nd_def)
  note a = attach_new [OF w tg k, folded sa']
  have tl: "tgt < length s" using tg by (simp add: isFolder_def)
  from c have wb: "wf_store sb" and fb: "frame sa sb (length s)"
    and kb: "getKids sb (length s) = getKids sa (length s) @ news"
    and cb: "list_all2 (copy_in (length sa) (length sb) sb) ts news"
    and lb: "map label (drop (length sa) sb) = concat (map flat ts)"
    by (simp_all add: copied_def)
  have lab: "length sa \<le> length sb" using fb by (rule frame_length)
  have f: "frame s sb tgt" using a(3) fb by (rule frame_trans) simp
  have k1: "getKids sb tgt = getKids s tgt @ [length s]"
    using frame_getKids [OF fb, of tgt] tl a(1,4) by simp
  have lbl: "label (sb ! length s) = (Folder, nm, [])"
    using fb a(1,5) by (simp add: frame_def label_def nd_def)
  then have nf: "isFolder sb (length s)" and nn: "getName sb (length s) = nm"
    using lab a(1) by (simp_all add: isFolder_def getName_def label_def)
  have "list_all2 (copy_in (length s) (length sb) sb) ts news"
    using cb a(1) by (auto elim!: list.rel_mono_strong intro: copy_in_mono)
  then have ci: "copy_in (length s) (length sb) sb (Branch nm ts) (length s)"
    using nf nn kb a(1,6) lab by simp
  have "drop (length s) sb = sb ! length s # drop (length sa) sb"
    using lab a(1) by (simp flip: Cons_nth_drop_Suc)
  then have "map label (drop (length s) sb) = concat (map flat [Branch nm ts])"
    using lbl lb by simp
  then show ?thesis
    using wb f k1 ci by (simp add: copied_def)
qed

lemma copyFolder_folders_copied:
  assumes step: "\<And>s src tgt. wf_store s \<Longrightarrow> isFolder s src \<Longrightarrow> isFolder s tgt \<Longrightarrow> fits n s src \<Longrightarrow>
      tgt \<notin> insert src (set (file_order n s src)) \<Longrightarrow>
      \<exists>s' news. copyFolder n s src tgt = Some s' \<and> copied s s' tgt (forest n s src) news"
  shows "wf_store s \<Longrightarrow> isFolder s tgt \<Longrightarrow>
     \<forall>d \<in> set ds. isFolder s d \<and> fits n s d \<and> tgt \<notin> insert d (set (file_order n s d)) \<Longrightarrow>
     \<exists>s' news. copyFolder_folders n s ds tgt = Some s'
        \<and> copied s s' tgt (map (\<lambda>d. Branch (getName s d) (forest n s d)) ds) news"
proof (induction ds arbitrary: s)
  case Nil
  then have "copied s s tgt [] []" by (simp add: copied_Nil)
  then show ?case by auto
next
  case (Cons d ds)
  note w = Cons.prems(1) and tg = Cons.prems(2)
  have dF: "isFolder s d" and dfit: "fits n s d"
    and dt: "tgt \<notin> insert d (set (file_order n s d))"
    using Cons.prems(3) by simp_all
  define sa where "sa = snd (createFolderIn s tgt (getName s d))"
  have cf: "createFolderIn s tgt (getName s d) = (length s, sa)"
    by (simp add: sa_def createFolderIn_def Let_def)
  have wa: "wf_store sa" using w by (simp add: sa_def wf_createFolderIn)
  have fa: "frame s sa tgt" by (simp add: sa_def frame_createFolderIn)
  have la: "length sa = Suc (length s)" by (simp add: sa_def length_createFolderIn)
  note cg = below_cong [OF fa w dF dt]
  have dFa: "isFolder sa d" using fa dF by (rule frame_isFolderD)
  have nFa: "isFolder sa (length s)" by (simp add: sa_def isFolder_createFolderIn)
  have fita: "fits n sa d" using cg dfit by simp
  have "d < length s" using dF by (simp add: isFolder_def)
  then have fresh: "length s \<notin> insert d (set (file_order n sa d))"
    using cg file_order_in_range [of "length s" n s d] by auto
  from step [OF wa dFa nFa fita fresh] obtain sb news_d
    where run: "copyFolder n sa d (length s) = Some sb"
      and cb: "copied sa sb (length s) (forest n sa d) news_d" by blast
  from cb cg have cb': "copied sa sb (length s) (forest n s d) news_d" by simp
  have c1: "copied s sb tgt [Branch (getName s d) (forest n s d)] [length s]"
    using w tg sa_def cb' by (rule copied_createFolderIn_then_copy)
  then have wb: "wf_store sb" and fb: "frame s sb tgt" by (simp_all add: copied_def)
  have tb: "isFolder sb tgt" using fb tg by (rule frame_isFolderD)
  have rest: "\<forall>e \<in> set ds. isFolder sb e \<and> fits n sb e
      \<and> tgt \<notin> insert e (set (file_order n sb e))"
  proof
    fix e
    assume e: "e \<in> set ds"
    then have eF: "isFolder s e" and efit: "fits n s e"
      and et: "tgt \<notin> insert e (set (file_order n s e))"
      using Cons.prems(3) by simp_all
    note ce = below_cong [OF fb w eF et]
    show "isFolder sb e \<and> fits n sb e \<and> tgt \<notin> insert e (set (file_order n sb e))"
      using ce eF efit et frame_isFolderD [OF fb eF] by simp
  qed
  from Cons.IH [OF wb tb rest] obtain s' news
    where run': "copyFolder_folders n sb ds tgt = Some s'"
      and c2: "copied sb s' tgt (map (\<lambda>d. Branch (getName sb d) (forest n sb d)) ds) news"
    by blast
  have "map (\<lambda>d. Branch (getName sb d) (forest n sb d)) ds =
        map (\<lambda>d. Branch (getName s d) (forest n s d)) ds"
  proof (rule map_cong [OF refl])
    fix e
    assume e: "e \<in> set ds"
    then have eF: "isFolder s e" and et: "tgt \<notin> insert e (set (file_order n s e))"
      using Cons.prems(3) by simp_all
    from eF have "e < length s" by (simp add: isFolder_def)
    then have "getName sb e = getName s e" using fb by (simp add: frame_getName)
    then show "Branch (getName sb e) (forest n sb e) = Branch (getName s e) (forest n s e)"
      using below_cong [OF fb w eF et] by simp
  qed
  with c2 have c2': "copied sb s' tgt (map (\<lambda>d. Branch (getName s d) (forest n s d)) ds) news"
    by simp
  have "tgt < length s" using tg by (simp add: isFolder_def)
  from copied_append [OF c1 c2' this]
  have "copied s s' tgt (map (\<lambda>d. Branch (getName s d) (forest n s d)) (d # ds))
          (length s # news)" by simp
  moreover have "copyFolder_folders n s (d # ds) tgt = Some s'"
    using cf run run' by simp
  ultimately show ?case by blast
qed

lemma copyFolder_copied:
  "wf_store s \<Longrightarrow> isFolder s src \<Longrightarrow> isFolder s tgt \<Longrightarrow> fits n s src \<Longrightarrow>
   tgt \<notin> insert src (set (file_order n s src)) \<Longrightarrow>
   \<exists>s' news. copyFolder n s src tgt = Some s' \<and> copied s s' tgt (forest n s src) news"
proof (induction n arbitrary: s src tgt)
  case 0
  then show ?case by simp
next
  case (Suc n)
  note w = Suc.prems(1) and sF = Suc.prems(2) and tg = Suc.prems(3)
  define s1 where "s1 = copyFolder_files (getFiles s src) tgt s"
  have "\<forall>f \<in> set (getFiles s src). isFile s f" by (simp add: getFiles_def)
  from copyFolder_files_copied [OF w tg this] obtain news_f
    where c1: "copied s s1 tgt
        (map (\<lambda>i. Leaf (getName s i) (content (s ! i))) (getFiles s src)) news_f"
    unfolding s1_def by blast
  then have w1: "wf_store s1" and f1: "frame s s1 tgt" by (simp_all add: copied_def)
  have t1: "isFolder s1 tgt" using f1 tg by (rule frame_isFolderD)
  have pre: "isFolder s d \<and> tgt \<notin> insert d (set (file_order n s d)) \<and> fits n s d"
    if d: "d \<in> set (getFolders s src)" for d
    using d Suc.prems(4,5) getFolders_subset_file_order [OF d, of n]
    by (auto simp: getFolders_def)
  have rest: "\<forall>d \<in> set (getFolders s src). isFolder s1 d \<and> fits n s1 d
      \<and> tgt \<notin> insert d (set (file_order n s1 d))"
  proof
    fix d
    assume d: "d \<in> set (getFolders s src)"
    note p = pre [OF d]
    from p have dF: "isFolder s d" and dt: "tgt \<notin> insert d (set (file_order n s d))"
      by simp_all
    show "isFolder s1 d \<and> fits n s1 d \<and> tgt \<notin> insert d (set (file_order n s1 d))"
      using below_cong [OF f1 w dF dt] p frame_isFolderD [OF f1 dF] by simp
  qed
  from copyFolder_folders_copied [OF Suc.IH w1 t1 rest] obtain s' news_d
    where run: "copyFolder_folders n s1 (getFolders s src) tgt = Some s'"
      and c2: "copied s1 s' tgt
          (map (\<lambda>d. Branch (getName s1 d) (forest n s1 d)) (getFolders s src)) news_d"
    by blast
  have "map (\<lambda>d. Branch (getName s1 d) (forest n s1 d)) (getFolders s src) =
        map (\<lambda>d. Branch (getName s d) (forest n s d)) (getFolders s src)"
  proof (rule map_cong [OF refl])
    fix d
    assume d: "d \<in> set (getFolders s src)"
    note p = pre [OF d]
    from p have dF: "isFolder s d" and dt: "tgt \<notin> insert d (set (file_order n s d))"
      by simp_all
    from dF have "d < length s" by (simp add: isFolder_def)
    then have "getName s1 d = getName s d" using f1 by (simp add: frame_getName)
    then show "Branch (getName s1 d) (forest n s1 d) = Branch (getName s d) (forest n s d)"
      using below_cong [OF f1 w dF dt] by simp
  qed
  with c2 have c2': "copied s1 s' tgt
      (map (\<lambda>d. Branch (getName s d) (forest n s d)) (getFolders s src)) news_d" by simp
  have "tgt < length s" using tg by (simp add: isFolder_def)
  from copied_append [OF c1 c2' this]
  have "copied s s' tgt (forest (Suc n) s src) (news_f @ news_d)" by simp
  moreover have "copyFolder (Suc n) s src tgt = Some s'"
    using run by (simp add: s1_def Let_def)
  ultimately show ?case by blast
qed

text \<open>After a copy into a target that is neither the source nor below it, the source is
  as it was.\<close>

lemma copied_again:
  assumes w: "wf_store s" and aF: "isFolder s A" and ft: "fits n s A"
    and nb: "B \<notin> insert A (set (file_order n s A))"
    and c: "copied s s1 B ts news"
  shows "fits n s1 A" and "B \<notin> insert A (set (file_order n s1 A))"
    and "forest n s1 A = forest n s A"
proof -
  from c have f1: "frame s s1 B" by (simp add: copied_def)
  note cg = below_cong [OF f1 w aF nb]
  show "fits n s1 A" using cg ft by simp
  show "B \<notin> insert A (set (file_order n s1 A))" using cg nb by simp
  show "forest n s1 A = forest n s A" using cg by simp
qed

text \<open>
  Claim C7, amended. Let the store be well formed, let \<open>A\<close> and \<open>B\<close> be folders, let the
  fuel suffice for \<open>A\<close>, and let \<open>B\<close> be neither \<open>A\<close> itself nor inside \<open>A\<close>. Then
  \<^verbatim>\<open>copyFolder\<close> returns. The nodes of the old store are as they were, but that \<open>B\<close> has
  new children at the end of its listing. These are the roots of copies of the content of
  \<open>A\<close>: same names, same file contents, same structure, all made of new nodes. The new
  nodes were created in the pre-order of the content of \<open>A\<close> with the files of every level
  first. A second run returns as well and adds, after the children made by the first run,
  the roots of a second copy of the content of \<open>A\<close>, made of nodes newer than all of the
  first run, whose copy stays as it was. Under this hypothesis on \<open>B\<close> no listing changes
  while it is iterated: the listings read are those of \<open>A\<close> and of the folders inside
  \<open>A\<close>, the listings changed are those of \<open>B\<close> and of new folders.
\<close>

theorem copyFolder_copies_subtree:
  assumes "wf_store s" and "isFolder s A" and "isFolder s B" and "fits n s A"
    and "B \<noteq> A" and "B \<notin> set (file_order n s A)"
  shows "\<exists>s1 news1. copyFolder n s A B = Some s1
           \<and> frame s s1 B \<and> getKids s1 B = getKids s B @ news1
           \<and> list_all2 (copy_in (length s) (length s1) s1) (forest n s A) news1
           \<and> map label (drop (length s) s1) = concat (map flat (forest n s A))
           \<and> (\<exists>s2 news2. copyFolder n s1 A B = Some s2
                 \<and> frame s1 s2 B \<and> getKids s2 B = getKids s B @ news1 @ news2
                 \<and> list_all2 (copy_in (length s) (length s1) s2) (forest n s A) news1
                 \<and> list_all2 (copy_in (length s1) (length s2) s2) (forest n s A) news2
                 \<and> map label (drop (length s1) s2) = concat (map flat (forest n s A)))"
proof -
  have nb: "B \<notin> insert A (set (file_order n s A))" using assms(5,6) by simp
  from copyFolder_copied [OF assms(1-4) nb] obtain s1 news1
    where r1: "copyFolder n s A B = Some s1" and c1: "copied s s1 B (forest n s A) news1"
    by blast
  from c1 have w1: "wf_store s1" and f1: "frame s s1 B"
    and k1: "getKids s1 B = getKids s B @ news1"
    and l1: "list_all2 (copy_in (length s) (length s1) s1) (forest n s A) news1"
    and m1: "map label (drop (length s) s1) = concat (map flat (forest n s A))"
    by (simp_all add: copied_def)
  note again = copied_again [OF assms(1,2,4) nb c1]
  have a1: "isFolder s1 A" and b1: "isFolder s1 B"
    using f1 assms(2,3) by (auto intro: frame_isFolderD)
  from copyFolder_copied [OF w1 a1 b1 again(1,2)] obtain s2 news2
    where r2: "copyFolder n s1 A B = Some s2" and c2: "copied s1 s2 B (forest n s1 A) news2"
    by blast
  from c2 have f2: "frame s1 s2 B"
    and k2: "getKids s2 B = getKids s1 B @ news2"
    and l2: "list_all2 (copy_in (length s1) (length s2) s2) (forest n s A) news2"
    and m2: "map label (drop (length s1) s2) = concat (map flat (forest n s A))"
    by (simp_all add: copied_def again(3))
  have "B < length s" using assms(3) by (simp add: isFolder_def)
  then have l12: "list_all2 (copy_in (length s) (length s1) s2) (forest n s A) news1"
    using l1 f2 by (auto elim!: list.rel_mono_strong intro: copy_in_frame)
  show ?thesis
    using r1 f1 k1 l1 m1 r2 f2 k2 l2 m2 l12 by auto
qed

theorem copyFolder_copies_subtree_witness:
  "wf_store ex_nested \<and> isFolder ex_nested 1 \<and> isFolder ex_nested 2 \<and> fits 3 ex_nested 1
   \<and> (2 :: nat) \<noteq> 1 \<and> 2 \<notin> set (file_order 3 ex_nested 1)
   \<and> forest 3 ex_nested 1 = [Branch ''N'' [Leaf ''m.txt'' ''y'']]
   \<and> (\<exists>s1 news1. copyFolder 3 ex_nested 1 2 = Some s1
         \<and> getKids s1 2 = news1
         \<and> list_all2 (copy_in 6 (length s1) s1) [Branch ''N'' [Leaf ''m.txt'' ''y'']] news1
         \<and> map label (drop 6 s1) = [(Folder, ''N'', []), (File, ''m.txt'', ''y'')]
         \<and> (\<exists>s2 news2. copyFolder 3 s1 1 2 = Some s2
               \<and> getKids s2 2 = news1 @ news2
               \<and> list_all2 (copy_in 6 (length s1) s2) [Branch ''N'' [Leaf ''m.txt'' ''y'']] news1
               \<and> list_all2 (copy_in (length s1) (length s2) s2)
                     [Branch ''N'' [Leaf ''m.txt'' ''y'']] news2))"
proof -
  have h1: "wf_store ex_nested"
    by (simp add: ex_nested_def wf_store_def)
  have h2: "isFolder ex_nested 1" and h3: "isFolder ex_nested 2"
    by (simp_all add: ex_nested_def store_eval)
  have h4: "fits 3 ex_nested 1"
    by (simp add: eval_nat_numeral ex_nested_def store_eval)
  have h5: "2 \<notin> set (file_order 3 ex_nested 1)"
    by (simp add: eval_nat_numeral ex_nested_def store_eval)
  have h6: "(2 :: nat) \<noteq> 1" by simp
  have fo: "forest 3 ex_nested 1 = [Branch ''N'' [Leaf ''m.txt'' ''y'']]"
    by (simp add: eval_nat_numeral ex_nested_def store_eval)
  have l: "length ex_nested = 6" and k: "getKids ex_nested 2 = []"
    by (simp_all add: ex_nested_def store_eval)
  from copyFolder_copies_subtree [OF h1 h2 h3 h4 h6 h5]
  have "\<exists>s1 news1. copyFolder 3 ex_nested 1 2 = Some s1
         \<and> getKids s1 2 = news1
         \<and> list_all2 (copy_in 6 (length s1) s1) [Branch ''N'' [Leaf ''m.txt'' ''y'']] news1
         \<and> map label (drop 6 s1) = [(Folder, ''N'', []), (File, ''m.txt'', ''y'')]
         \<and> (\<exists>s2 news2. copyFolder 3 s1 1 2 = Some s2
               \<and> getKids s2 2 = news1 @ news2
               \<and> list_all2 (copy_in 6 (length s1) s2) [Branch ''N'' [Leaf ''m.txt'' ''y'']] news1
               \<and> list_all2 (copy_in (length s1) (length s2) s2)
                     [Branch ''N'' [Leaf ''m.txt'' ''y'']] news2)"
    unfolding fo l k by (elim exE conjE) (simp add: fo)
  then show ?thesis using h1 h2 h3 h4 h5 h6 fo by blast
qed

text \<open>Copying into a folder that the source lists among its own children never returns:
  the new folder made inside the target is met by the copy of the target itself.\<close>

lemma copyFolder_folders_preserves:
  assumes step: "\<And>s src tgt s'. wf_store s \<Longrightarrow> isFolder s tgt \<Longrightarrow> copyFolder n s src tgt = Some s' \<Longrightarrow>
      wf_store s' \<and> frame s s' tgt"
  shows "wf_store s \<Longrightarrow> isFolder s tgt \<Longrightarrow> copyFolder_folders n s ds tgt = Some s' \<Longrightarrow>
     wf_store s' \<and> frame s s' tgt"
proof (induction ds arbitrary: s)
  case Nil
  then show ?case by (simp add: frame_refl)
next
  case (Cons d ds)
  define sa where "sa = snd (createFolderIn s tgt (getName s d))"
  have cf: "createFolderIn s tgt (getName s d) = (length s, sa)"
    by (simp add: sa_def createFolderIn_def Let_def)
  have wa: "wf_store sa" using Cons.prems(1) by (simp add: sa_def wf_createFolderIn)
  have fa: "frame s sa tgt" by (simp add: sa_def frame_createFolderIn)
  have nFa: "isFolder sa (length s)" by (simp add: sa_def isFolder_createFolderIn)
  from Cons.prems(3) cf obtain sb where run: "copyFolder n sa d (length s) = Some sb"
    and rest: "copyFolder_folders n sb ds tgt = Some s'"
    by (auto split: option.splits)
  from step [OF wa nFa run] have wb: "wf_store sb" and fb: "frame sa sb (length s)" by simp_all
  have fsb: "frame s sb tgt" using fa fb by (rule frame_trans) simp
  have tb: "isFolder sb tgt" using fsb Cons.prems(2) by (rule frame_isFolderD)
  from Cons.IH [OF wb tb rest] have "wf_store s'" and "frame sb s' tgt" by simp_all
  then show ?case using fsb by (auto intro: frame_trans)
qed

lemma copyFolder_preserves:
  "wf_store s \<Longrightarrow> isFolder s tgt \<Longrightarrow> copyFolder n s src tgt = Some s' \<Longrightarrow> wf_store s' \<and> frame s s' tgt"
proof (induction n arbitrary: s src tgt s')
  case 0
  then show ?case by simp
next
  case (Suc n)
  define s1 where "s1 = copyFolder_files (getFiles s src) tgt s"
  have "\<forall>f \<in> set (getFiles s src). isFile s f" by (simp add: getFiles_def)
  from copyFolder_files_copied [OF Suc.prems(1,2) this]
  have w1: "wf_store s1" and f1: "frame s s1 tgt" by (auto simp: s1_def copied_def)
  have t1: "isFolder s1 tgt" using f1 Suc.prems(2) by (rule frame_isFolderD)
  from Suc.prems(3) have "copyFolder_folders n s1 (getFolders s src) tgt = Some s'"
    by (simp add: s1_def Let_def)
  with w1 t1 have "wf_store s' \<and> frame s1 s' tgt"
    by (rule copyFolder_folders_preserves [rotated]) (rule Suc.IH; assumption)
  then show ?case using f1 by (auto intro: frame_trans)
qed

lemma copyFolder_folders_into_child:
  assumes step: "\<And>s X Y. wf_store s \<Longrightarrow> isFolder s Y \<Longrightarrow> Y \<in> set (getFolders s X) \<Longrightarrow>
      copyFolder n s X Y = None"
  shows "wf_store s \<Longrightarrow> isFolder s Y \<Longrightarrow> Y \<in> set ds \<Longrightarrow> copyFolder_folders n s ds Y = None"
proof (induction ds arbitrary: s)
  case Nil
  then show ?case by simp
next
  case (Cons d ds)
  define sa where "sa = snd (createFolderIn s Y (getName s d))"
  have cf: "createFolderIn s Y (getName s d) = (length s, sa)"
    by (simp add: sa_def createFolderIn_def Let_def)
  have wa: "wf_store sa" using Cons.prems(1) by (simp add: sa_def wf_createFolderIn)
  have fa: "frame s sa Y" by (simp add: sa_def frame_createFolderIn)
  have Ya: "isFolder sa Y" using fa Cons.prems(2) by (rule frame_isFolderD)
  have nFa: "isFolder sa (length s)" by (simp add: sa_def isFolder_createFolderIn)
  have inY: "length s \<in> set (getFolders sa Y)"
    using Cons.prems(1,2) by (simp add: sa_def getFolders_createFolderIn)
  show ?case
  proof (cases "copyFolder n sa d (length s)")
    case None
    then show ?thesis using cf by simp
  next
    case (Some sb)
    have "d \<noteq> Y" using step [OF wa nFa inY] Some by auto
    then have Yds: "Y \<in> set ds" using Cons.prems(3) by simp
    from copyFolder_preserves [OF wa nFa Some] have wb: "wf_store sb" and fb: "frame sa sb (length s)"
      by simp_all
    have Yb: "isFolder sb Y" using fb Ya by (rule frame_isFolderD)
    from Cons.IH [OF wb Yb Yds] show ?thesis using cf Some by simp
  qed
qed

lemma copyFolder_into_child:
  "wf_store s \<Longrightarrow> isFolder s Y \<Longrightarrow> Y \<in> set (getFolders s X) \<Longrightarrow> copyFolder n s X Y = None"
proof (induction n arbitrary: s X Y)
  case 0
  then show ?case by simp
next
  case (Suc n)
  define s1 where "s1 = copyFolder_files (getFiles s X) Y s"
  have "\<forall>f \<in> set (getFiles s X). isFile s f" by (simp add: getFiles_def)
  from copyFolder_files_copied [OF Suc.prems(1,2) this]
  have w1: "wf_store s1" and f1: "frame s s1 Y" by (auto simp: s1_def copied_def)
  have Y1: "isFolder s1 Y" using f1 Suc.prems(2) by (rule frame_isFolderD)
  from w1 Y1 Suc.prems(3) have "copyFolder_folders n s1 (getFolders s X) Y = None"
    by (rule copyFolder_folders_into_child [rotated]) (rule Suc.IH; assumption)
  then show ?case by (simp add: s1_def Let_def)
qed

text \<open>
  Claim C7, as stated, fails when the destination lies inside the source: in
  \<open>ex_inside\<close> the copy of \<open>A\<close> into its own sub-folder \<open>B\<close> returns with no fuel
  whatever, so there is no store after the copy to speak of.
\<close>

theorem copyFolder_copies_subtree_counterexample:
  "wf_store ex_inside \<and> isFolder ex_inside 1 \<and> isFolder ex_inside 2
   \<and> getFolders ex_inside 1 = [2]
   \<and> (\<forall>n. copyFolder n ex_inside 1 2 = None)"
proof -
  have h1: "wf_store ex_inside" by (simp add: ex_inside_def wf_store_def)
  have h2: "isFolder ex_inside 1" and h3: "isFolder ex_inside 2"
    and h4: "getFolders ex_inside 1 = [2]"
    by (simp_all add: ex_inside_def store_eval)
  have "2 \<in> set (getFolders ex_inside 1)" unfolding h4 by simp
  from copyFolder_into_child [OF h1 h3 this] show ?thesis using h1 h2 h3 h4 by simp
qed

section \<open>Idempotence of \<^verbatim>\<open>findOrCreateFolder\<close> with \<open>moveTo\<close>\<close>

lemma setKids_setKids: "setKids (setKids s p ks) p ks' = setKids s p ks'"
  by (simp add: setKids_def)

lemma setKids_same: "isFolder s p \<Longrightarrow> setKids s p (getKids s p) = s"
  by (simp add: setKids_def getKids_def isFolder_def)

lemma getParents_single_removeFromParents:
  "getParents s c = [p] \<Longrightarrow> removeFromParents s c = removeFolder s p c"
  by (simp add: removeFromParents_def)

lemma fits_below: "fits (Suc n) s f \<Longrightarrow> d \<in> set (folder_order (Suc n) s f) \<Longrightarrow> fits n s d"
proof (induction n arbitrary: f d)
  case 0
  then show ?case by auto
next
  case (Suc n)
  from Suc.prems(2) obtain c where c: "c \<in> set (getFolders s f)"
    and d: "d = c \<or> d \<in> set (folder_order (Suc n) s c)" by auto
  from Suc.prems(1) c have fc: "fits (Suc n) s c" by simp
  from d show ?case
  proof
    assume "d = c"
    with fc show ?thesis by simp
  next
    assume "d \<in> set (folder_order (Suc n) s c)"
    from Suc.IH [OF fc this] show ?thesis by (rule fits_Suc)
  qed
qed

lemma folder_order_stable: "fits n s f \<Longrightarrow> folder_order (Suc n) s f = folder_order n s f"
proof (induction n arbitrary: f)
  case 0
  then show ?case by simp
next
  case (Suc n)
  then have "folder_order (Suc n) s d = folder_order n s d" if "d \<in> set (getFolders s f)" for d
    using that by simp
  then show ?case by (simp cong: map_cong)
qed

lemma fits_acyclic: "fits n s f \<Longrightarrow> f \<notin> set (folder_order n s f)"
proof (induction n arbitrary: f)
  case 0
  then show ?case by simp
next
  case (Suc n)
  show ?case
  proof
    assume a: "f \<in> set (folder_order (Suc n) s f)"
    from fits_below [OF Suc.prems a] have f: "fits n s f" .
    from a have "f \<in> set (folder_order n s f)" by (simp only: folder_order_stable [OF f])
    with Suc.IH [OF f] show False by simp
  qed
qed

text \<open>
  Claim C8. Let the store be well formed, let \<open>P\<close> be a folder, let the fuel be at least
  two and suffice for \<open>P\<close>, and let no folder below \<open>P\<close> have the name; the empty Drive
  with its root as \<open>P\<close> is the instance of the claim. The call with \<open>moveTo\<close> set
  returns a new folder of that name. The store it leaves is the old one with this one
  node added and appended to the children of \<open>P\<close>, which is its only parent. The same
  call on this store returns the same folder and leaves the store as it is.
\<close>

theorem findOrCreateFolder_moveTo_idempotent:
  assumes w: "wf_store s" and r: "isFolder s rootFolder" and p: "isFolder s P"
    and f: "fits (Suc (Suc n)) s P"
    and ab: "find (folderMatches s nm) (folder_order (Suc (Suc n)) s P) = None"
  defines "s1 \<equiv> setKids (s @ [\<lparr>name = nm, kind = Folder, content = [], kids = []\<rparr>]) P
                   (getKids s P @ [length s])"
  shows "findOrCreateFolder (Suc (Suc n)) s P nm True = Some (Inr (length s), s1)
       \<and> findOrCreateFolder (Suc (Suc n)) s1 P nm True = Some (Inr (length s), s1)
       \<and> length s1 = Suc (length s) \<and> frame s s1 P
       \<and> isFolder s1 (length s) \<and> getName s1 (length s) = nm
       \<and> getParents s1 (length s) = [P]"
proof -
  define nd where "nd = \<lparr>name = nm, kind = Folder, content = [], kids = []\<rparr>"
  define s0 where "s0 = s @ [nd]"
  have s1: "s1 = setKids s0 P (getKids s P @ [length s])" by (simp add: s1_def s0_def nd_def)
  have pl: "P < length s" and rl: "rootFolder < length s"
    using p r by (simp_all add: isFolder_def)
  have fresh: "length s \<notin> set (getKids s i)" for i
    using wf_getKids [OF w, of "length s" i] by auto
  have k0: "getKids s0 i = getKids s i" for i
    by (auto simp: s0_def nd_def getKids_append) (simp add: getKids_def isFolder_def)
  have F0: "isFolder s0 i = (isFolder s i \<or> i = length s)" for i
    by (simp add: s0_def nd_def isFolder_append)
  have l0: "length s0 = Suc (length s)" by (simp add: s0_def)
  have w0: "wf_store s0" using w by (simp add: s0_def nd_def wf_append)
  have attach: "addFolder s0 q (length s) = setKids s0 q (getKids s q @ [length s])" for q
    using fresh [of q] by (simp add: addFolder_def k0)
  have detach: "removeFromParents (setKids s0 q (getKids s q @ [length s])) (length s) = s0"
    if q: "isFolder s q" for q
  proof -
    let ?t = "setKids s0 q (getKids s q @ [length s])"
    have ql: "q < length s" using q by (simp add: isFolder_def)
    have q0: "isFolder s0 q" using q by (simp add: F0)
    have kt: "getKids ?t i = (if i = q then getKids s q @ [length s] else getKids s i)" for i
      using q0 by (simp add: getKids_setKids k0)
    have "getParents ?t (length s) = [q]"
    proof (rule getParents_eq_single)
      show "q < length ?t" using ql by (simp add: l0)
      show "(length s \<in> set (getKids ?t i)) = (i = q)" for i
        using fresh [of i] by (simp add: kt)
    qed
    then have "removeFromParents ?t (length s) = removeFolder ?t q (length s)"
      by (rule getParents_single_removeFromParents)
    also have "\<dots> = setKids s0 q (getKids s q)"
      using fresh [of q] by (simp add: removeFolder_def kt setKids_setKids)
    also have "\<dots> = s0" using setKids_same [OF q0] by (simp add: k0)
    finally show ?thesis .
  qed
  have create: "createFolder s nm = (length s, setKids s0 rootFolder (getKids s rootFolder @ [length s]))"
    using attach [of rootFolder]
    by (simp add: createFolder_def createFolderIn_def Let_def s0_def nd_def)
  have move0: "moveTo (setKids s0 q (getKids s q @ [length s])) (length s) P = s1"
    if "isFolder s q" for q
    using detach [OF that] attach [of P] by (simp add: moveTo_def s1)
  have first: "findOrCreateFolder (Suc (Suc n)) s P nm True = Some (Inr (length s), s1)"
  proof -
    have "findFolderByName (Suc (Suc n)) s P nm = Some (Inr None)"
      using p f ab by (simp add: findFolderByName_eq del: fits.simps folder_order.simps)
    moreover have "isFolder (setKids s0 rootFolder (getKids s rootFolder @ [length s])) P"
      using p by (simp add: F0)
    ultimately show ?thesis
      using create move0 [OF r]
      by (simp add: findOrCreateFolder_def getFolderById_def del: fits.simps folder_order.simps)
  qed
  have P0: "isFolder s0 P" using p by (simp add: F0)
  have k1: "getKids s1 i = (if i = P then getKids s P @ [length s] else getKids s i)" for i
    using P0 by (simp add: s1 getKids_setKids k0)
  have F1: "isFolder s1 i = (isFolder s i \<or> i = length s)" for i
    by (simp add: s1 F0)
  have n1: "getName s1 i = (if i = length s then nm else getName s i)" if "i \<le> length s" for i
    using that by (auto simp: s1 s0_def nd_def getName_append) (simp add: getName_def)
  have gF1: "getFolders s1 i = (if i = P then getFolders s P @ [length s] else getFolders s i)"
    for i
  proof -
    have "filter (isFolder s1) (getKids s j) = filter (isFolder s) (getKids s j)" for j
      using wf_getKids [OF w] by (intro filter_cong) (auto simp: F1)
    then show ?thesis by (simp add: getFolders_def k1 F1)
  qed
  have acyc: "P \<notin> set (folder_order (Suc (Suc n)) s P)" using f by (rule fits_acyclic)
  have sub: "folder_order (Suc n) s1 d = folder_order (Suc n) s d \<and> fits (Suc n) s1 d"
    if d: "d \<in> set (getFolders s P)" for d
  proof -
    have "P \<notin> insert d (set (folder_order (Suc n) s d))"
      using acyc d by auto
    then have "\<forall>i \<in> insert d (set (folder_order (Suc n) s d)). getFolders s1 i = getFolders s i"
      by (auto simp: gF1)
    then show ?thesis
      using folder_order_cong [of d "Suc n" s s1] fits_cong [of d "Suc n" s s1] f d by simp
  qed
  have "getFolders s (length s) = []"
    by (simp add: getFolders_def getKids_def isFolder_def)
  then have gnew: "getFolders s1 (length s) = []"
    using pl by (simp add: gF1)
  have onew: "folder_order (Suc n) s1 (length s) = []" and fnew: "fits (Suc n) s1 (length s)"
    by (simp_all add: gnew)
  have gP: "getFolders s1 P = getFolders s P @ [length s]" by (simp add: gF1)
  have m: "map (\<lambda>d. d # folder_order (Suc n) s1 d) (getFolders s P) =
           map (\<lambda>d. d # folder_order (Suc n) s d) (getFolders s P)"
    using sub by (intro map_cong) auto
  have "folder_order (Suc (Suc n)) s1 P =
        concat (map (\<lambda>d. d # folder_order (Suc n) s1 d) (getFolders s P @ [length s]))"
    by (simp only: folder_order.simps(2) [of "Suc n" s1 P] gP)
  also have "\<dots> = concat (map (\<lambda>d. d # folder_order (Suc n) s d) (getFolders s P)) @ [length s]"
    by (simp add: m onew del: folder_order.simps)
  also have "\<dots> = folder_order (Suc (Suc n)) s P @ [length s]"
    by (simp only: folder_order.simps(2) [of "Suc n" s P])
  finally have o1: "folder_order (Suc (Suc n)) s1 P = folder_order (Suc (Suc n)) s P @ [length s]" .
  have "fits (Suc n) s1 d" if "d \<in> set (getFolders s P @ [length s])" for d
    using that sub fnew by auto
  then have f1: "fits (Suc (Suc n)) s1 P"
    by (simp only: fits.simps(2) [of "Suc n" s1 P] gP) blast
  have old: "\<not> folderMatches s1 nm i" if i: "i \<in> set (folder_order (Suc (Suc n)) s P)" for i
  proof -
    from i have iF: "isFolder s i" by (rule folder_order_isFolder)
    then have "i < length s" by (simp add: isFolder_def)
    moreover from ab i have "\<not> folderMatches s nm i" by (simp only: find_None_iff) blast
    ultimately show ?thesis using iF by (simp add: folderMatches_def n1 F1)
  qed
  have new: "folderMatches s1 nm (length s)" by (simp add: folderMatches_def n1 F1)
  have "find (folderMatches s1 nm) (folder_order (Suc (Suc n)) s P) = None"
    using old by (simp only: find_None_iff) blast
  then have found: "find (folderMatches s1 nm) (folder_order (Suc (Suc n)) s1 P) = Some (length s)"
    using new by (simp only: o1 find_append_case) simp
  have P1: "isFolder s1 P" using p by (simp add: F1)
  have again: "moveTo s1 (length s) P = s1"
    unfolding s1 using detach [OF p] attach [of P] by (simp add: moveTo_def)
  have second: "findOrCreateFolder (Suc (Suc n)) s1 P nm True = Some (Inr (length s), s1)"
    using P1 f1 found again
    by (simp add: findOrCreateFolder_def findFolderByName_eq getFolderById_def
        del: fits.simps folder_order.simps)
  have par: "getParents s1 (length s) = [P]"
  proof (rule getParents_eq_single)
    show "P < length s1" using pl by (simp add: s1 l0)
    show "(length s \<in> set (getKids s1 i)) = (i = P)" for i
      using fresh [of i] by (simp add: k1)
  qed
  have fr: "frame s s1 P"
    unfolding s1 s0_def by (rule frame_trans [OF frame_append frame_setKids]) simp
  show ?thesis
    using first second par fr by (simp add: F1 n1) (simp add: s1 l0)
qed

theorem findOrCreateFolder_moveTo_idempotent_witness:
  "wf_store ex_empty \<and> isFolder ex_empty rootFolder \<and> fits (Suc (Suc 0)) ex_empty rootFolder
   \<and> find (folderMatches ex_empty ''Invoices'')
         (folder_order (Suc (Suc 0)) ex_empty rootFolder) = None
   \<and> findOrCreateFolder (Suc (Suc 0)) ex_empty rootFolder ''Invoices'' True =
       Some (Inr 1, [\<lparr>name = ''root'', kind = Folder, content = '''', kids = [1]\<rparr>,
                     \<lparr>name = ''Invoices'', kind = Folder, content = '''', kids = []\<rparr>])
   \<and> findOrCreateFolder (Suc (Suc 0))
         [\<lparr>name = ''root'', kind = Folder, content = '''', kids = [1]\<rparr>,
          \<lparr>name = ''Invoices'', kind = Folder, content = '''', kids = []\<rparr>]
         rootFolder ''Invoices'' True =
       Some (Inr 1, [\<lparr>name = ''root'', kind = Folder, content = '''', kids = [1]\<rparr>,
                     \<lparr>name = ''Invoices'', kind = Folder, content = '''', kids = []\<rparr>])"
proof -
  have h1: "wf_store ex_empty"
    by (simp add: ex_empty_def wf_store_def)
  have h2: "isFolder ex_empty rootFolder"
    by (simp add: ex_empty_def store_eval rootFolder_def)
  have h3: "fits (Suc (Suc 0)) ex_empty rootFolder"
    by (simp add: ex_empty_def store_eval rootFolder_def)
  have h4: "find (folderMatches ex_empty ''Invoices'')
         (folder_order (Suc (Suc 0)) ex_empty rootFolder) = None"
    by (simp add: ex_empty_def store_eval rootFolder_def)
  have e: "setKids (ex_empty @ [\<lparr>name = ''Invoices'', kind = Folder, content = [], kids = []\<rparr>])
             rootFolder (getKids ex_empty rootFolder @ [length ex_empty]) =
           [\<lparr>name = ''root'', kind = Folder, content = '''', kids = [1]\<rparr>,
            \<lparr>name = ''Invoices'', kind = Folder, content = '''', kids = []\<rparr>]"
    and l: "length ex_empty = 1"
    by (simp_all add: ex_empty_def store_eval rootFolder_def setKids_def)
  note t = findOrCreateFolder_moveTo_idempotent [OF h1 h2 h2 h3 h4, unfolded e]
  note t' = t [unfolded l]
  show ?thesis using h1 h2 h3 h4 t' by blast
qed


end
